theory Spec2Isabelle
  imports Main "HOL-Library.AList"
begin

section \<open>MAGSplitter: the input loaders of \<open>input_to_df.py\<close>\<close>

text \<open>
  Text is a \<^typ>\<open>string\<close>: a list of characters with code points below 256. A file system
  is a partial map from file names to the decoded text of the file (Python's text mode has
  already turned every line ending into a single newline character). Every exception the
  source can raise is a value of \<open>error\<close>, and a function that can raise returns
  \<open>error + 'a\<close>.
\<close>

datatype error = FileNotFoundError | IndexError | AttributeError | KeyError | ValueError
  | EmptyDataError | ParserError

type_synonym filesystem = "string \<Rightarrow> string option"

definition TAB :: char where
  "TAB = CHR 0x09"

definition NL :: char where
  "NL = CHR 0x0A"

subsection \<open>Python's built-in text operations\<close>

text \<open>\<open>for line in f\<close>: the lines of a text file, each with its newline; a last line
  without newline is a line too, an empty rest is not.\<close>

fun file_lines_from :: "string \<Rightarrow> string \<Rightarrow> string list" where
  "file_lines_from cur [] = (if cur = [] then [] else [cur])"
| "file_lines_from cur (c # cs) =
     (if c = NL then (cur @ [c]) # file_lines_from [] cs else file_lines_from (cur @ [c]) cs)"

definition file_lines :: "string \<Rightarrow> string list" where
  "file_lines txt = file_lines_from [] txt"

text \<open>\<open>str.isspace\<close> on one character, for the code points below 256.\<close>

definition isspace :: "char \<Rightarrow> bool" where
  "isspace c = (let n = of_char c :: nat in
     (9 \<le> n \<and> n \<le> 13) \<or> (28 \<le> n \<and> n \<le> 32) \<or> n = 133 \<or> n = 160)"

text \<open>\<open>str.rstrip()\<close> removes the trailing whitespace.\<close>

definition rstrip :: "string \<Rightarrow> string" where
  "rstrip s = rev (dropWhile isspace (rev s))"

text \<open>\<open>str.split("\t")\<close>: the fields between the tabs; the empty string has one empty
  field.\<close>

fun split_tab :: "string \<Rightarrow> string list" where
  "split_tab [] = [[]]"
| "split_tab (c # cs) =
     (if c = TAB then [] # split_tab cs
      else (case split_tab cs of [] \<Rightarrow> [[c]] | f # fs \<Rightarrow> (c # f) # fs))"

subsection \<open>\<open>convert_rxn_row_list_format\<close>\<close>

text \<open>The \<open>while not rxn_row[end_idx] == '\t'\<close> loop; indexing past the end of the string
  raises \<open>IndexError\<close>.\<close>

function find_tab :: "string \<Rightarrow> nat \<Rightarrow> error + nat" where
  "find_tab rxn_row end_idx =
     (if length rxn_row \<le> end_idx then Inl IndexError
      else if rxn_row ! end_idx = TAB then Inr end_idx
      else find_tab rxn_row (end_idx + 1))"
  by pat_completeness auto
termination
  by (relation "measure (\<lambda>(rxn_row, end_idx). length rxn_row - end_idx)") auto

declare find_tab.simps [simp del]

text \<open>The two-element list the source returns is a pair here.\<close>

definition convert_rxn_row_list_format :: "string \<Rightarrow> error + (string \<times> string)" where
  "convert_rxn_row_list_format rxn_row =
     (case find_tab rxn_row 1 of
        Inl e \<Rightarrow> Inl e
      | Inr end_idx \<Rightarrow> Inr (take end_idx rxn_row, rxn_row))"

subsection \<open>\<open>convert_pl_input_to_rxn_df\<close>\<close>

text \<open>A value of the dictionary \<open>temp_rxn\<close> is a string or a list of strings. The dictionary
  is an association list in insertion order with distinct keys: assigning to a key that is
  present replaces its value in place, assigning to a new key appends it.\<close>

datatype val = Str string | Lst "string list"

type_synonym rxn = "(string \<times> val) list"

definition temp_rxn_init :: rxn where
  "temp_rxn_init = [(''ec'', Lst []), (''metacyc'', Lst [])]"

text \<open>\<open>temp_rxn[k].append(v)\<close>: a string has no \<open>append\<close>.\<close>

definition dict_append :: "rxn \<Rightarrow> string \<Rightarrow> string \<Rightarrow> error + rxn" where
  "dict_append temp_rxn k v =
     (case map_of temp_rxn k of
        None \<Rightarrow> Inl KeyError
      | Some (Str s) \<Rightarrow> Inl AttributeError
      | Some (Lst xs) \<Rightarrow> Inr (AList.update k (Lst (xs @ [v])) temp_rxn))"

text \<open>The body of the inner loop after the row has been converted.\<close>

definition rxn_store :: "rxn \<Rightarrow> string \<times> string \<Rightarrow> error + rxn" where
  "rxn_store temp_rxn entry_list_format =
     (if fst entry_list_format = ''EC'' then dict_append temp_rxn ''ec'' (snd entry_list_format)
      else if fst entry_list_format = ''METACYC''
        then dict_append temp_rxn ''metacyc'' (snd entry_list_format)
      else Inr (AList.update (fst entry_list_format) (Str (snd entry_list_format)) temp_rxn))"

text \<open>The inner loop \<open>while pl_lines[end_idx] != "//"\<close>; it returns the index of the
  terminator and the record. Reading \<open>pl_lines\<close> past its end raises \<open>IndexError\<close>.\<close>

function pl_inner :: "string list \<Rightarrow> nat \<Rightarrow> rxn \<Rightarrow> error + (nat \<times> rxn)" where
  "pl_inner pl_lines end_idx temp_rxn =
     (if length pl_lines \<le> end_idx then Inl IndexError
      else if pl_lines ! end_idx = ''//'' then Inr (end_idx, temp_rxn)
      else (case convert_rxn_row_list_format (pl_lines ! end_idx) of
              Inl e \<Rightarrow> Inl e
            | Inr entry_list_format \<Rightarrow>
                (case rxn_store temp_rxn entry_list_format of
                   Inl e \<Rightarrow> Inl e
                 | Inr temp_rxn' \<Rightarrow> pl_inner pl_lines (end_idx + 1) temp_rxn')))"
  by pat_completeness auto
termination
  by (relation "measure (\<lambda>(pl_lines, end_idx, temp_rxn). length pl_lines - end_idx)") auto

declare pl_inner.simps [simp del]

text \<open>The outer loop \<open>while start_idx < len(pl_lines)\<close>. The source's indices are
  unbounded integers; they are never negative, and \<open>end_idx + 1 - start_idx\<close> is positive
  because the inner loop only moves forward, so naturals compute the
  same values.\<close>

function pl_outer :: "string list \<Rightarrow> nat \<Rightarrow> rxn list \<Rightarrow> error + rxn list" where
  "pl_outer pl_lines start_idx rxn_acc =
     (if start_idx < length pl_lines then
        (case pl_inner pl_lines start_idx temp_rxn_init of
           Inl e \<Rightarrow> Inl e
         | Inr (end_idx, temp_rxn) \<Rightarrow>
             pl_outer pl_lines (start_idx + (end_idx + 1 - start_idx)) (rxn_acc @ [temp_rxn]))
      else Inr rxn_acc)"
  by pat_completeness auto
termination
proof (relation "measure (\<lambda>(pl_lines, start_idx, rxn_acc). length pl_lines - start_idx)")
  show "wf (measure (\<lambda>(pl_lines, start_idx, rxn_acc). length pl_lines - start_idx))"
    by simp
next
  fix pl_lines :: "string list" and start_idx :: nat and rxn_acc :: "rxn list"
    and x2 :: "nat \<times> rxn" and end_idx :: nat and temp_rxn :: rxn
  assume "start_idx < length pl_lines"
    and "pl_inner pl_lines start_idx temp_rxn_init = Inr x2"
    and "(end_idx, temp_rxn) = x2"
  moreover have "i \<le> j \<and> j < length ls" if "pl_inner ls i t = Inr (j, t')" for ls i t j t'
    using that
  proof (induction ls i t rule: pl_inner.induct)
    case (1 pl_lines end_idx temp_rxn)
    then show ?case
      by (subst (asm) (2) pl_inner.simps) (fastforce split: if_splits sum.splits)
  qed
  ultimately have "start_idx \<le> end_idx \<and> end_idx < length pl_lines"
    by metis
  then show "((pl_lines, start_idx + (end_idx + 1 - start_idx), rxn_acc @ [temp_rxn]),
              (pl_lines, start_idx, rxn_acc))
             \<in> measure (\<lambda>(pl_lines, start_idx, rxn_acc). length pl_lines - start_idx)"
    by auto
qed

declare pl_outer.simps [simp del]

text \<open>A data frame: the column labels, and the rows as lists of cells in column order.\<close>

record ('l, 'c) frame =
  columns :: "'l list"
  rows :: "'c list list"

text \<open>\<open>pd.DataFrame(rxn_acc)\<close> on a list of dictionaries: the columns are the keys in
  order of first appearance; a row has the dictionary's value in each column, and
  \<open>None\<close> (a missing value, NaN) where the dictionary has no such key.\<close>

fun dict_columns :: "string list \<Rightarrow> rxn list \<Rightarrow> string list" where
  "dict_columns seen [] = seen"
| "dict_columns seen (d # ds) =
     dict_columns (seen @ filter (\<lambda>k. k \<notin> set seen) (map fst d)) ds"

definition DataFrame :: "rxn list \<Rightarrow> (string, val option) frame" where
  "DataFrame rxn_acc =
     \<lparr>columns = dict_columns [] rxn_acc,
      rows = map (\<lambda>d. map (map_of d) (dict_columns [] rxn_acc)) rxn_acc\<rparr>"

text \<open>\<open>df.rename(columns={...})\<close> relabels the columns the mapping names.\<close>

definition relabel :: "('l \<Rightarrow> 'l option) \<Rightarrow> 'l \<Rightarrow> 'l" where
  "relabel m c = (case m c of None \<Rightarrow> c | Some c' \<Rightarrow> c')"

definition rename :: "('l \<Rightarrow> 'l option) \<Rightarrow> ('l, 'c) frame \<Rightarrow> ('l, 'c) frame" where
  "rename m df = df\<lparr>columns := map (relabel m) (columns df)\<rparr>"

definition pf_renames :: "string \<Rightarrow> string option" where
  "pf_renames = [''ID'' \<mapsto> ''ORF_ID'', ''PRODUCT-TYPE'' \<mapsto> ''PRODUCT_TYPE'']"

text \<open>The function after the file has been read into \<open>pl_lines\<close>.\<close>

definition rxn_df_of_lines :: "string list \<Rightarrow> error + (string, val option) frame" where
  "rxn_df_of_lines pl_lines =
     (case pl_outer pl_lines 0 [] of
        Inl e \<Rightarrow> Inl e
      | Inr rxn_acc \<Rightarrow> Inr (rename pf_renames (DataFrame rxn_acc)))"

definition convert_pl_input_to_rxn_df ::
  "filesystem \<Rightarrow> string \<Rightarrow> error + (string, val option) frame" where
  "convert_pl_input_to_rxn_df fs pl =
     (case fs pl of
        None \<Rightarrow> Inl FileNotFoundError
      | Some txt \<Rightarrow> rxn_df_of_lines (map rstrip (file_lines txt)))"

text \<open>The cells of row \<open>i\<close> in the columns labelled \<open>c\<close> (labels can repeat after a
  renaming).\<close>

definition cells :: "('l, 'c) frame \<Rightarrow> nat \<Rightarrow> 'l \<Rightarrow> 'c list" where
  "cells df i c =
     map (\<lambda>j. rows df ! i ! j) (filter (\<lambda>j. columns df ! j = c) [0..<length (columns df)])"

text \<open>The key the source reads off a row, when it can convert the row.\<close>

definition row_key :: "string \<Rightarrow> string option" where
  "row_key l = (case convert_rxn_row_list_format l of Inl e \<Rightarrow> None | Inr p \<Rightarrow> Some (fst p))"

subsection \<open>\<open>convert_contig_mag_map_to_df\<close>\<close>

text \<open>\<open>pd.read_csv\<close> belongs to the pandas library; the function takes it as a parameter
  \<open>read_csv\<close> that gives, for a file name, the exception raised or the frame read. With
  \<open>header=None\<close> the frame's columns are labelled by position; a cell is a text or
  missing.\<close>

datatype label = Pos nat | Name string

type_synonym table = "(label, string option) frame"

text \<open>\<open>pd.DataFrame(columns=[...])\<close>: a frame without rows.\<close>

definition empty_frame :: "'l list \<Rightarrow> ('l, 'c) frame" where
  "empty_frame ls = \<lparr>columns = ls, rows = []\<rparr>"

text \<open>\<open>df.columns = [...]\<close> raises \<open>ValueError\<close> unless it gets one label for each
  column.\<close>

definition set_columns :: "'l list \<Rightarrow> ('l, 'c) frame \<Rightarrow> error + ('l, 'c) frame" where
  "set_columns ls df =
     (if length ls = length (columns df) then Inr (df\<lparr>columns := ls\<rparr>) else Inl ValueError)"

text \<open>\<open>df[[...]]\<close>: the columns with the labels asked for, in the order asked for;
  \<open>KeyError\<close> when a label is not a column.\<close>

definition select_columns :: "'l list \<Rightarrow> ('l, 'c) frame \<Rightarrow> error + ('l, 'c) frame" where
  "select_columns ls df =
     (if set ls \<subseteq> set (columns df) then
        (let idx = concat (map (\<lambda>l. filter (\<lambda>j. columns df ! j = l) [0..<length (columns df)]) ls)
         in Inr \<lparr>columns = map (\<lambda>j. columns df ! j) idx,
                 rows = map (\<lambda>r. map (\<lambda>j. r ! j) idx) (rows df)\<rparr>)
      else Inl KeyError)"

text \<open>The bare \<open>except:\<close> catches whatever \<open>read_csv\<close> raises; the two statements after
  the \<open>try\<close> are outside it.\<close>

definition convert_contig_mag_map_to_df ::
  "(string \<Rightarrow> error + table) \<Rightarrow> string \<Rightarrow> error + table" where
  "convert_contig_mag_map_to_df read_csv contig_mag_map =
     (let df = (case read_csv contig_mag_map of
                  Inl e \<Rightarrow> empty_frame [Name ''CONTIG_ID'', Name ''BIN_ID'']
                | Inr df \<Rightarrow> df)
      in case set_columns [Name ''CONTIG_ID'', Name ''BIN_ID''] df of
           Inl e \<Rightarrow> Inl e
         | Inr df' \<Rightarrow> select_columns [Name ''BIN_ID'', Name ''CONTIG_ID''] df')"

subsection \<open>\<open>convert_duplicate_orf_map_to_list\<close>\<close>

text \<open>The assignment \<open>orf_map[rxn_idx][orf_idx] = 'ID\t' + orf_map[rxn_idx][orf_idx]\<close>.
  Both indices come from \<open>range(len(...))\<close> of the list they index, so they are in range.\<close>

definition prefix_orf :: "string list list \<Rightarrow> nat \<Rightarrow> nat \<Rightarrow> string list list" where
  "prefix_orf orf_map rxn_idx orf_idx =
     orf_map[rxn_idx := (orf_map ! rxn_idx)[orf_idx := ''ID'' @ [TAB] @ orf_map ! rxn_idx ! orf_idx]]"

text \<open>The inner loop \<open>for orf_idx in range(len(orf_map[rxn_idx]))\<close>.\<close>

definition prefix_rxn :: "string list list \<Rightarrow> nat \<Rightarrow> string list list" where
  "prefix_rxn orf_map rxn_idx =
     fold (\<lambda>orf_idx m. prefix_orf m rxn_idx orf_idx) [0..<length (orf_map ! rxn_idx)] orf_map"

text \<open>The outer loop \<open>for rxn_idx in range(len(orf_map))\<close>.\<close>

definition prefix_all :: "string list list \<Rightarrow> string list list" where
  "prefix_all orf_map = fold (\<lambda>rxn_idx m. prefix_rxn m rxn_idx) [0..<length orf_map] orf_map"

definition convert_duplicate_orf_map_to_list ::
  "filesystem \<Rightarrow> string \<Rightarrow> error + string list list" where
  "convert_duplicate_orf_map_to_list fs duplicate_orf_map =
     (case fs duplicate_orf_map of
        None \<Rightarrow> Inl FileNotFoundError
      | Some txt \<Rightarrow>
          Inr (prefix_all (map (\<lambda>line. split_tab (rstrip line))
                 (filter (\<lambda>line. TAB \<in> set line) (file_lines txt)))))"

subsection \<open>The loops of the parser seen on the list of lines\<close>

text \<open>Auxiliary functions for the proofs: the inner loop over the rows of one block, and the
  outer loop over a list of blocks. \<open>pl_inner_block\<close> and \<open>pl_outer_blocks\<close> below relate
  them to the loops over indices.\<close>

fun rows_fold :: "string list \<Rightarrow> rxn \<Rightarrow> error + rxn" where
  "rows_fold [] t = Inr t"
| "rows_fold (l # ls) t =
     (case convert_rxn_row_list_format l of
        Inl e \<Rightarrow> Inl e
      | Inr p \<Rightarrow> (case rxn_store t p of Inl e \<Rightarrow> Inl e | Inr t' \<Rightarrow> rows_fold ls t'))"

fun blocks_fold :: "string list list \<Rightarrow> error + rxn list" where
  "blocks_fold [] = Inr []"
| "blocks_fold (b # bs) =
     (case rows_fold b temp_rxn_init of
        Inl e \<Rightarrow> Inl e
      | Inr r \<Rightarrow> (case blocks_fold bs of Inl e \<Rightarrow> Inl e | Inr rs \<Rightarrow> Inr (r # rs)))"

text \<open>The text of a row with key \<open>k\<close> and rest \<open>v\<close>, and the lines of a file made of the
  given blocks, each closed by its terminator.\<close>

definition pf_row :: "string \<Rightarrow> string \<Rightarrow> string" where
  "pf_row k v = k @ [TAB] @ v"


definition pf_lines :: "string list list \<Rightarrow> string list" where
  "pf_lines bs = concat (map (\<lambda>b. b @ [''//'']) bs)"

subsection \<open>One block in the words of the specification\<close>

text \<open>The specification describes the record of a block by the keys of its lines, a key
  being the text of a line before its first tab. The definitions below follow those words
  and use none of the functions above; the theorems compare the parser with them.\<close>

definition line_key :: "string \<Rightarrow> string option" where
  "line_key l = (if TAB \<in> set l then Some (takeWhile (\<lambda>c. c \<noteq> TAB) l) else None)"

text \<open>Some line of key \<open>K\<close> comes after a line of key \<open>k\<close>.\<close>

fun key_follows :: "string \<Rightarrow> string \<Rightarrow> string list \<Rightarrow> bool" where
  "key_follows K k [] = False"
| "key_follows K k (l # b) =
     ((line_key l = Some k \<and> (\<exists>l'\<in>set b. line_key l' = Some K)) \<or> key_follows K k b)"

text \<open>A line of key \<open>EC\<close> after a line of key \<open>ec\<close>, or a line of key \<open>METACYC\<close> after a
  line of key \<open>metacyc\<close>.\<close>

definition clash :: "string list \<Rightarrow> bool" where
  "clash b = (key_follows ''EC'' ''ec'' b \<or> key_follows ''METACYC'' ''metacyc'' b)"

text \<open>The value a record holds under \<open>k\<close>: the lines of key \<open>EC\<close> are collected under
  \<open>ec\<close> and those of key \<open>METACYC\<close> under \<open>metacyc\<close>, in source order; a line of any other
  key is stored under its key, the last one winning.\<close>

definition spec_field :: "string list \<Rightarrow> string \<Rightarrow> val option" where
  "spec_field b k =
     (if k = ''EC'' \<or> k = ''METACYC'' then None
      else (case filter (\<lambda>l. line_key l = Some k) b of
              l # ls \<Rightarrow> Some (Str (last (l # ls)))
            | [] \<Rightarrow>
                if k = ''ec'' then Some (Lst (filter (\<lambda>l. line_key l = Some ''EC'') b))
                else if k = ''metacyc''
                  then Some (Lst (filter (\<lambda>l. line_key l = Some ''METACYC'') b))
                else None))"

text \<open>Auxiliary function for the proofs: the first exception the lines of a block raise, read
  off their keys; the flags say that \<open>ec\<close> and \<open>metacyc\<close> hold a string already.\<close>

fun first_fault :: "bool \<Rightarrow> bool \<Rightarrow> string list \<Rightarrow> error option" where
  "first_fault e m [] = None"
| "first_fault e m (l # b) =
     (case line_key l of
        None \<Rightarrow> Some IndexError
      | Some k \<Rightarrow>
          if k = ''EC'' then (if e then Some AttributeError else first_fault e m b)
          else if k = ''METACYC'' then (if m then Some AttributeError else first_fault e m b)
          else first_fault (e \<or> k = ''ec'') (m \<or> k = ''metacyc'') b)"

section \<open>Properties\<close>

subsection \<open>Splitting a row\<close>

lemma find_tab_drop:
  "i \<le> length s \<Longrightarrow> find_tab s i =
     (if TAB \<in> set (drop i s) then Inr (i + length (takeWhile (\<lambda>c. c \<noteq> TAB) (drop i s)))
      else Inl IndexError)"
proof (induction s i rule: find_tab.induct)
  case (1 s i)
  show ?case
  proof (cases "length s \<le> i")
    case True
    then show ?thesis by (subst find_tab.simps) simp
  next
    case False
    then have d: "drop i s = s ! i # drop (Suc i) s"
      by (simp add: Cons_nth_drop_Suc)
    show ?thesis
    proof (cases "s ! i = TAB")
      case True
      with False d show ?thesis by (subst find_tab.simps) simp
    next
      case neq: False
      from False have "Suc i \<le> length s" by simp
      with 1 False neq have "find_tab s (i + 1) =
        (if TAB \<in> set (drop (i + 1) s)
         then Inr (i + 1 + length (takeWhile (\<lambda>c. c \<noteq> TAB) (drop (i + 1) s)))
         else Inl IndexError)" by simp
      with False neq d show ?thesis by (subst find_tab.simps) auto
    qed
  qed
qed

lemma convert_row_snd: "convert_rxn_row_list_format l = Inr p \<Longrightarrow> snd p = l"
  by (auto simp: convert_rxn_row_list_format_def split: sum.splits)

lemma convert_row_error: "convert_rxn_row_list_format l = Inl e \<Longrightarrow> e = IndexError"
proof (cases l)
  case Nil
  then show "convert_rxn_row_list_format l = Inl e \<Longrightarrow> e = IndexError"
    by (simp add: convert_rxn_row_list_format_def find_tab.simps)
next
  case (Cons c cs)
  then have "1 \<le> length l" by simp
  from find_tab_drop [OF this]
  show "convert_rxn_row_list_format l = Inl e \<Longrightarrow> e = IndexError"
    by (auto simp: convert_rxn_row_list_format_def split: sum.splits if_splits)
qed

text \<open>A row that does not begin with a tab is split at its first tab, and cannot be
  converted when it has none.\<close>

lemma convert_row_plain:
  assumes "take 1 l \<noteq> [TAB]"
  shows "convert_rxn_row_list_format l =
    (if TAB \<in> set l then Inr (takeWhile (\<lambda>c. c \<noteq> TAB) l, l) else Inl IndexError)"
proof (cases l)
  case Nil
  then show ?thesis by (simp add: convert_rxn_row_list_format_def find_tab.simps)
next
  case (Cons c cs)
  with assms have c: "c \<noteq> TAB" by simp
  from Cons have "1 \<le> length l" by simp
  from find_tab_drop [OF this] Cons c show ?thesis
    by (simp add: convert_rxn_row_list_format_def takeWhile_eq_take [symmetric])
qed

text \<open>
  C3. The claim: a row with a tab is split at its first tab, the key being the text before
  that tab. The scan starts at index 1, so a tab at index 0 is never seen: the row
  \<open>\tA\tB\<close> gets the key \<open>\tA\<close> (the text before its second tab) instead of the empty
  text before its first, and the row \<open>\tA\<close>, which has a tab, raises \<open>IndexError\<close>.
\<close>

theorem convert_rxn_row_leading_tab:
  "convert_rxn_row_list_format (TAB # ''A'' @ TAB # ''B'') = Inr (TAB # ''A'', TAB # ''A'' @ TAB # ''B'')
   \<and> takeWhile (\<lambda>c. c \<noteq> TAB) (TAB # ''A'' @ TAB # ''B'') = []
   \<and> convert_rxn_row_list_format (TAB # ''A'') = Inl IndexError"
  by (simp add: convert_rxn_row_list_format_def find_tab.simps TAB_def)

subsection \<open>The loops over indices and the lists they scan\<close>

lemma pl_inner_block:
  assumes "''//'' \<notin> set b"
  shows "pl_inner (pre @ b @ ''//'' # post) (length pre) t =
    (case rows_fold b t of Inl e \<Rightarrow> Inl e | Inr t' \<Rightarrow> Inr (length pre + length b, t'))"
  using assms
proof (induction b arbitrary: pre t)
  case Nil
  show ?case by (subst pl_inner.simps) simp
next
  case (Cons l b)
  have step: "pl_inner ((pre @ [l]) @ b @ ''//'' # post) (length (pre @ [l])) t' =
    (case rows_fold b t' of Inl e \<Rightarrow> Inl e | Inr t'' \<Rightarrow> Inr (length (pre @ [l]) + length b, t''))"
    for t'
    using Cons.prems by (intro Cons.IH) simp
  from Cons.prems have "l \<noteq> ''//''" by auto
  then show ?case
    using step by (subst pl_inner.simps) (simp split: sum.splits)
qed

lemma pl_inner_eof:
  assumes "''//'' \<notin> set b"
  shows "pl_inner (pre @ b) (length pre) t =
    (case rows_fold b t of Inl e \<Rightarrow> Inl e | Inr t' \<Rightarrow> Inl IndexError)"
  using assms
proof (induction b arbitrary: pre t)
  case Nil
  show ?case by (subst pl_inner.simps) simp
next
  case (Cons l b)
  have step: "pl_inner ((pre @ [l]) @ b) (length (pre @ [l])) t' =
    (case rows_fold b t' of Inl e \<Rightarrow> Inl e | Inr t'' \<Rightarrow> Inl IndexError)" for t'
    using Cons.prems by (intro Cons.IH) simp
  from Cons.prems have "l \<noteq> ''//''" by auto
  then show ?case
    using step by (subst pl_inner.simps) (simp split: sum.splits)
qed

lemma pl_outer_blocks:
  assumes "\<forall>b\<in>set bs. ''//'' \<notin> set b" and "''//'' \<notin> set post"
  shows "pl_outer (pre @ pf_lines bs @ post) (length pre) acc =
    (case blocks_fold bs of
       Inl e \<Rightarrow> Inl e
     | Inr rs \<Rightarrow>
         if post = [] then Inr (acc @ rs)
         else (case rows_fold post temp_rxn_init of Inl e \<Rightarrow> Inl e | Inr t \<Rightarrow> Inl IndexError))"
  using assms
proof (induction bs arbitrary: pre acc)
  case Nil
  show ?case
  proof (cases "post = []")
    case True
    then show ?thesis by (subst pl_outer.simps) (simp add: pf_lines_def)
  next
    case False
    with pl_inner_eof [OF Nil.prems(2), of pre temp_rxn_init] show ?thesis
      by (subst pl_outer.simps) (simp add: pf_lines_def split: sum.splits)
  qed
next
  case (Cons b bs)
  let ?pre = "pre @ b @ [''//'']"
  have lines: "pre @ pf_lines (b # bs) @ post = ?pre @ pf_lines bs @ post"
    by (simp add: pf_lines_def)
  have inner: "pl_inner (?pre @ pf_lines bs @ post) (length pre) temp_rxn_init =
    (case rows_fold b temp_rxn_init of
       Inl e \<Rightarrow> Inl e | Inr t' \<Rightarrow> Inr (length pre + length b, t'))"
    using pl_inner_block [of b pre "pf_lines bs @ post" temp_rxn_init] Cons.prems by simp
  have rest: "pl_outer (?pre @ pf_lines bs @ post) (length ?pre) acc' =
    (case blocks_fold bs of
       Inl e \<Rightarrow> Inl e
     | Inr rs \<Rightarrow>
         if post = [] then Inr (acc' @ rs)
         else (case rows_fold post temp_rxn_init of Inl e \<Rightarrow> Inl e | Inr t \<Rightarrow> Inl IndexError))"
    for acc'
    using Cons.prems by (intro Cons.IH) simp_all
  show ?case
  proof (cases "rows_fold b temp_rxn_init")
    case (Inl e)
    with inner show ?thesis
      unfolding lines by (subst pl_outer.simps) simp
  next
    case (Inr r)
    with inner have "pl_outer (?pre @ pf_lines bs @ post) (length pre) acc =
      pl_outer (?pre @ pf_lines bs @ post) (length ?pre) (acc @ [r])"
      by (subst pl_outer.simps) simp
    with Inr show ?thesis
      unfolding lines rest by (simp split: sum.splits)
  qed
qed

lemma lines_blocks:
  "\<exists>bs post. ls = pf_lines bs @ post \<and> (\<forall>b\<in>set bs. ''//'' \<notin> set b) \<and> ''//'' \<notin> set post"
proof (induction ls)
  case Nil
  have "[] = pf_lines [] @ [] \<and> (\<forall>b\<in>set ([] :: string list list). ''//'' \<notin> set b)
    \<and> ''//'' \<notin> set ([] :: string list)"
    by (simp add: pf_lines_def)
  then show ?case by blast
next
  case (Cons l ls)
  then obtain bs post where ls: "ls = pf_lines bs @ post"
    and bs: "\<forall>b\<in>set bs. ''//'' \<notin> set b" and post: "''//'' \<notin> set post"
    by blast
  show ?case
  proof (cases "l = ''//''")
    case True
    with ls bs post have "l # ls = pf_lines ([] # bs) @ post
      \<and> (\<forall>b\<in>set ([] # bs). ''//'' \<notin> set b) \<and> ''//'' \<notin> set post"
      by (simp add: pf_lines_def)
    then show ?thesis by blast
  next
    case False
    show ?thesis
    proof (cases bs)
      case Nil
      with ls post False have "l # ls = pf_lines [] @ (l # post)
        \<and> (\<forall>b\<in>set ([] :: string list list). ''//'' \<notin> set b) \<and> ''//'' \<notin> set (l # post)"
        by (simp add: pf_lines_def)
      then show ?thesis by blast
    next
      case (Cons b bs')
      with ls bs post False have "l # ls = pf_lines ((l # b) # bs') @ post
        \<and> (\<forall>b\<in>set ((l # b) # bs'). ''//'' \<notin> set b) \<and> ''//'' \<notin> set post"
        by (simp add: pf_lines_def)
      then show ?thesis by blast
    qed
  qed
qed

subsection \<open>What a block leaves in its record\<close>

lemma rxn_store_cases:
  assumes "rxn_store t p = Inr t'"
  shows "(fst p = ''EC'' \<and> (\<exists>xs. map_of t ''ec'' = Some (Lst xs)
            \<and> map_of t' = (map_of t)(''ec'' \<mapsto> Lst (xs @ [snd p]))))
       \<or> (fst p = ''METACYC'' \<and> (\<exists>xs. map_of t ''metacyc'' = Some (Lst xs)
            \<and> map_of t' = (map_of t)(''metacyc'' \<mapsto> Lst (xs @ [snd p]))))
       \<or> (fst p \<noteq> ''EC'' \<and> fst p \<noteq> ''METACYC''
            \<and> map_of t' = (map_of t)(fst p \<mapsto> Str (snd p)))"
  using assms
  by (auto simp: rxn_store_def dict_append_def update_conv' split: if_splits option.splits val.splits)

lemma rxn_store_update: "rxn_store t p = Inr t' \<Longrightarrow> \<exists>k v. t' = AList.update k v t"
  by (auto simp: rxn_store_def dict_append_def split: if_splits option.splits val.splits)

lemma rxn_store_keys:
  assumes "rxn_store t p = Inr t'"
  shows "fst ` set t \<subseteq> fst ` set t'" and "distinct (map fst t) \<Longrightarrow> distinct (map fst t')"
proof -
  from rxn_store_update [OF assms] obtain k v where t': "t' = AList.update k v t" by blast
  show "fst ` set t \<subseteq> fst ` set t'"
    unfolding t' dom_update by blast
  show "distinct (map fst t')" if "distinct (map fst t)"
    unfolding t' using that by (rule distinct_update)
qed

lemma rxn_store_ok:
  "map_of t ''ec'' = Some (Lst xs) \<Longrightarrow> map_of t ''metacyc'' = Some (Lst ys)
   \<Longrightarrow> \<exists>t'. rxn_store t p = Inr t'"
  by (simp add: rxn_store_def dict_append_def)

lemma rows_fold_keys:
  assumes "rows_fold b t = Inr r"
  shows "fst ` set t \<subseteq> fst ` set r" and "distinct (map fst t) \<Longrightarrow> distinct (map fst r)"
  using assms
proof (induction b arbitrary: t)
  case Nil
  {
    case 1 then show ?case by simp
  next
    case 2 then show ?case by simp
  }
next
  case (Cons l b)
  {
    case 1
    then obtain p t' where "rxn_store t p = Inr t'" and "rows_fold b t' = Inr r"
      by (auto split: sum.splits)
    with Cons.IH(1) [of t'] rxn_store_keys(1) [of t p t'] show ?case by blast
  next
    case 2
    then obtain p t' where "rxn_store t p = Inr t'" and "rows_fold b t' = Inr r"
      by (auto split: sum.splits)
    with Cons.IH(2) [of t'] rxn_store_keys(2) [of t p t'] 2 show ?case by blast
  }
qed

text \<open>A key other than the four special ones holds the last row that carries it.\<close>

lemma rows_fold_plain_key:
  assumes "rows_fold b t = Inr r"
    and "k \<notin> {''EC'', ''METACYC'', ''ec'', ''metacyc''}"
  shows "map_of r k =
    (case filter (\<lambda>l. row_key l = Some k) b of
       [] \<Rightarrow> map_of t k
     | l # ls \<Rightarrow> Some (Str (last (l # ls))))"
  using assms(1)
proof (induction b arbitrary: t)
  case Nil
  then show ?case by simp
next
  case (Cons l b)
  then obtain p t' where p: "convert_rxn_row_list_format l = Inr p"
    and store: "rxn_store t p = Inr t'" and rest: "rows_fold b t' = Inr r"
    by (auto split: sum.splits)
  from p have key: "row_key l = Some (fst p)" and l: "snd p = l"
    by (simp_all add: row_key_def convert_row_snd)
  have t': "map_of t' k = (if fst p = k then Some (Str l) else map_of t k)"
    using rxn_store_cases [OF store] assms(2) l by auto
  show ?case
    using Cons.IH [OF rest] key t' by (auto split: list.splits)
qed

text \<open>The list under \<open>ec\<close> grows by the rows with key \<open>EC\<close>, as long as no row has the key
  \<open>ec\<close> itself; the same for \<open>metacyc\<close> and \<open>METACYC\<close>.\<close>

lemma rows_fold_list_key:
  assumes "rows_fold b t = Inr r"
    and "(K, k) = (''EC'', ''ec'') \<or> (K, k) = (''METACYC'', ''metacyc'')"
    and "\<forall>l\<in>set b. row_key l \<noteq> Some k"
    and "map_of t k = Some (Lst xs)"
  shows "map_of r k = Some (Lst (xs @ filter (\<lambda>l. row_key l = Some K) b))"
  using assms(1,3,4)
proof (induction b arbitrary: t xs)
  case Nil
  then show ?case by simp
next
  case (Cons l b)
  then obtain p t' where p: "convert_rxn_row_list_format l = Inr p"
    and store: "rxn_store t p = Inr t'" and rest: "rows_fold b t' = Inr r"
    by (auto split: sum.splits)
  from p have key: "row_key l = Some (fst p)" and l: "snd p = l"
    by (simp_all add: row_key_def convert_row_snd)
  from Cons.prems(2) key have nk: "fst p \<noteq> k" by auto
  have t': "map_of t' k = Some (Lst (if fst p = K then xs @ [l] else xs))"
    using rxn_store_cases [OF store] assms(2) l nk Cons.prems(3) by auto
  from Cons.prems(2) have "\<forall>l\<in>set b. row_key l \<noteq> Some k" by simp
  from Cons.IH [OF rest this t'] key show ?case by simp
qed

text \<open>Without a row of key \<open>ec\<close> or \<open>metacyc\<close>, a block fails only on a row that cannot be
  converted.\<close>

lemma rows_fold_result:
  assumes "\<forall>l\<in>set b. row_key l \<noteq> Some ''ec'' \<and> row_key l \<noteq> Some ''metacyc''"
    and "map_of t ''ec'' = Some (Lst xs)" and "map_of t ''metacyc'' = Some (Lst ys)"
  shows "if \<exists>l\<in>set b. row_key l = None then rows_fold b t = Inl IndexError
         else \<exists>r. rows_fold b t = Inr r"
  using assms
proof (induction b arbitrary: t xs ys)
  case Nil
  then show ?case by simp
next
  case (Cons l b)
  show ?case
  proof (cases "convert_rxn_row_list_format l")
    case (Inl e)
    then have "row_key l = None" and "e = IndexError"
      by (simp_all add: row_key_def convert_row_error)
    with Inl show ?thesis by simp
  next
    case (Inr p)
    then have key: "row_key l = Some (fst p)" by (simp add: row_key_def)
    with Cons.prems(1) have nk: "fst p \<noteq> ''ec''" "fst p \<noteq> ''metacyc''" by auto
    obtain t' where store: "rxn_store t p = Inr t'"
      using rxn_store_ok [OF Cons.prems(2,3)] by blast
    from rxn_store_cases [OF store] nk Cons.prems(2,3)
    obtain xs' ys' where "map_of t' ''ec'' = Some (Lst xs')"
      and "map_of t' ''metacyc'' = Some (Lst ys')"
      by auto
    moreover from Cons.prems(1)
    have "\<forall>l\<in>set b. row_key l \<noteq> Some ''ec'' \<and> row_key l \<noteq> Some ''metacyc''" by simp
    ultimately have "if \<exists>l\<in>set b. row_key l = None then rows_fold b t' = Inl IndexError
         else \<exists>r. rows_fold b t' = Inr r"
      by (rule Cons.IH [rotated])
    with Inr store key show ?thesis by simp
  qed
qed

lemma temp_rxn_init_lists:
  "map_of temp_rxn_init ''ec'' = Some (Lst [])" "map_of temp_rxn_init ''metacyc'' = Some (Lst [])"
  by (simp_all add: temp_rxn_init_def)

lemma pl_inner_alone:
  "''//'' \<notin> set b \<Longrightarrow> pl_inner (b @ [''//'']) 0 t =
     (case rows_fold b t of Inl e \<Rightarrow> Inl e | Inr t' \<Rightarrow> Inr (length b, t'))"
  using pl_inner_block [of b "[]" "[]" t] by (simp cong: sum.case_cong)

lemma convert_pf_row:
  assumes "k \<noteq> []" and "TAB \<notin> set k"
  shows "convert_rxn_row_list_format (pf_row k v) = Inr (k, pf_row k v)"
proof -
  from assms have "take 1 (pf_row k v) \<noteq> [TAB]"
    by (cases k) (auto simp: pf_row_def)
  moreover from assms(2) have "takeWhile (\<lambda>c. c \<noteq> TAB) (pf_row k v) = k"
    by (auto simp: pf_row_def takeWhile_tail)
  ultimately show ?thesis
    by (simp add: convert_row_plain) (simp add: pf_row_def)
qed

lemma row_key_pf_row: "k \<noteq> [] \<Longrightarrow> TAB \<notin> set k \<Longrightarrow> row_key (pf_row k v) = Some k"
  by (simp add: row_key_def convert_pf_row)

lemma pf_row_not_end: "pf_row k v \<noteq> ''//''"
proof
  assume "pf_row k v = ''//''"
  then have "set (k @ [TAB] @ v) = set ''//''" by (simp add: pf_row_def)
  then show False by (auto simp: TAB_def)
qed

subsection \<open>The frame of a list of blocks\<close>

lemma blocks_fold_Inr:
  "blocks_fold bs = Inr rs \<longleftrightarrow> list_all2 (\<lambda>b r. rows_fold b temp_rxn_init = Inr r) bs rs"
proof (induction bs arbitrary: rs)
  case Nil
  then show ?case by auto
next
  case (Cons b bs)
  show ?case
    by (cases rs) (auto simp: Cons.IH [symmetric] split: sum.splits)
qed

lemma rxn_df_of_pf_lines:
  assumes "\<forall>b\<in>set bs. ''//'' \<notin> set b"
  shows "rxn_df_of_lines (pf_lines bs) =
    (case blocks_fold bs of
       Inl e \<Rightarrow> Inl e
     | Inr rs \<Rightarrow> Inr (rename pf_renames (DataFrame rs)))"
  using pl_outer_blocks [OF assms, of "[]" "[]" "[]"]
  by (simp add: rxn_df_of_lines_def split: sum.splits)



subsection \<open>The cells of the parsed frame\<close>

lemma dict_columns_set:
  "set (dict_columns seen ds) = set seen \<union> (\<Union>d\<in>set ds. fst ` set d)"
  by (induction seen ds rule: dict_columns.induct) auto

lemma dict_columns_distinct:
  "distinct seen \<Longrightarrow> \<forall>d\<in>set ds. distinct (map fst d) \<Longrightarrow> distinct (dict_columns seen ds)"
proof (induction seen ds rule: dict_columns.induct)
  case (1 seen)
  then show ?case by simp
next
  case (2 seen d ds)
  from "2.prems" have "distinct (seen @ filter (\<lambda>k. k \<notin> set seen) (map fst d))"
    by auto
  with 2 show ?case by simp
qed

lemma filter_eq_single: "distinct xs \<Longrightarrow> x \<in> set xs \<Longrightarrow> filter (\<lambda>y. y = x) xs = [x]"
  by (induction xs) (auto simp: filter_empty_conv)

lemma cells_rename_DataFrame:
  assumes "i < length rs"
  shows "cells (rename m (DataFrame rs)) i c =
    map (map_of (rs ! i)) (filter (\<lambda>c0. relabel m c0 = c) (dict_columns [] rs))"
proof -
  let ?cols = "dict_columns [] rs"
  have "cells (rename m (DataFrame rs)) i c =
    map (\<lambda>j. map_of (rs ! i) (?cols ! j))
      (filter (\<lambda>j. relabel m (?cols ! j) = c) [0..<length ?cols])"
    using assms
    by (auto simp: cells_def rename_def DataFrame_def intro!: map_cong filter_cong)
  also have "\<dots> = map (map_of (rs ! i)) (map (\<lambda>j. ?cols ! j)
      (filter ((\<lambda>c0. relabel m c0 = c) \<circ> (\<lambda>j. ?cols ! j)) [0..<length ?cols]))"
    by (simp add: comp_def)
  also have "\<dots> = map (map_of (rs ! i)) (filter (\<lambda>c0. relabel m c0 = c)
      (map (\<lambda>j. ?cols ! j) [0..<length ?cols]))"
    by (simp only: filter_map)
  finally show ?thesis by (simp add: map_nth)
qed

lemma relabel_pf:
  "relabel pf_renames c0 =
     (if c0 = ''ID'' then ''ORF_ID'' else if c0 = ''PRODUCT-TYPE'' then ''PRODUCT_TYPE'' else c0)"
  by (simp add: relabel_def pf_renames_def)

lemma cells_plain:
  assumes "i < length rs" and "\<forall>r\<in>set rs. distinct (map fst r)"
    and "c \<in> fst ` set (rs ! i)"
    and "c \<notin> {''ID'', ''PRODUCT-TYPE'', ''ORF_ID'', ''PRODUCT_TYPE''}"
  shows "cells (rename pf_renames (DataFrame rs)) i c = [map_of (rs ! i) c]"
proof -
  let ?cols = "dict_columns [] rs"
  from assms(4) have "(\<lambda>c0. relabel pf_renames c0 = c) = (\<lambda>c0. c0 = c)"
    by (auto simp: relabel_pf fun_eq_iff)
  moreover from assms(2) have "distinct ?cols"
    by (simp add: dict_columns_distinct)
  moreover from assms(1,3) have "c \<in> set ?cols"
    unfolding dict_columns_set using nth_mem by blast
  ultimately show ?thesis
    by (simp add: cells_rename_DataFrame [OF assms(1)] filter_eq_single)
qed

lemma cells_renamed:
  assumes "i < length rs" and "map_of (rs ! i) c0 = Some v"
  shows "Some v \<in> set (cells (rename pf_renames (DataFrame rs)) i (relabel pf_renames c0))"
proof -
  from assms(2) have "c0 \<in> fst ` set (rs ! i)"
    by (metis domI dom_map_of_conv_image_fst)
  with assms(1) have "c0 \<in> set (dict_columns [] rs)"
    unfolding dict_columns_set using nth_mem by blast
  then have "c0 \<in> set (filter (\<lambda>c. relabel pf_renames c = relabel pf_renames c0)
      (dict_columns [] rs))"
    by simp
  then have "map_of (rs ! i) c0 \<in> set (cells (rename pf_renames (DataFrame rs)) i
      (relabel pf_renames c0))"
    unfolding cells_rename_DataFrame [OF assms(1)] by (simp only: set_map) (rule imageI)
  with assms(2) show ?thesis by simp
qed

lemma renamed_columns:
  "''ID'' \<notin> set (columns (rename pf_renames df))"
  "''PRODUCT-TYPE'' \<notin> set (columns (rename pf_renames df))"
  by (auto simp: rename_def relabel_pf split: if_splits)

lemma rows_fold_init_keys:
  assumes "rows_fold b temp_rxn_init = Inr r"
  shows "distinct (map fst r)" and "''ec'' \<in> fst ` set r" and "''metacyc'' \<in> fst ` set r"
proof -
  show "distinct (map fst r)"
    using rows_fold_keys(2) [OF assms] by (simp add: temp_rxn_init_def)
  show "''ec'' \<in> fst ` set r" and "''metacyc'' \<in> fst ` set r"
    using rows_fold_keys(1) [OF assms] by (auto simp: temp_rxn_init_def)
qed

lemma rows_fold_untouched:
  assumes "rows_fold b t = Inr r"
    and "(K, k) = (''EC'', ''ec'') \<or> (K, k) = (''METACYC'', ''metacyc'')"
    and "\<forall>l\<in>set b. row_key l \<noteq> Some K \<and> row_key l \<noteq> Some k"
  shows "map_of r k = map_of t k"
  using assms(1,3)
proof (induction b arbitrary: t)
  case Nil
  then show ?case by simp
next
  case (Cons l b)
  then obtain p t' where p: "convert_rxn_row_list_format l = Inr p"
    and store: "rxn_store t p = Inr t'" and rest: "rows_fold b t' = Inr r"
    by (auto split: sum.splits)
  from p have key: "row_key l = Some (fst p)"
    by (simp add: row_key_def)
  with Cons.prems(2) have "fst p \<noteq> K" and "fst p \<noteq> k" by auto
  with rxn_store_cases [OF store] assms(2) have "map_of t' k = map_of t k" by auto
  moreover from Cons.prems(2)
  have "\<forall>l\<in>set b. row_key l \<noteq> Some K \<and> row_key l \<noteq> Some k" by simp
  ultimately show ?case using Cons.IH [OF rest] by simp
qed

lemma parsed_frame:
  assumes "\<forall>b\<in>set bs. ''//'' \<notin> set b" and "rxn_df_of_lines (pf_lines bs) = Inr df"
  shows "\<exists>rs. df = rename pf_renames (DataFrame rs) \<and> length rs = length bs
    \<and> (\<forall>i<length bs. rows_fold (bs ! i) temp_rxn_init = Inr (rs ! i))"
proof -
  from assms rxn_df_of_pf_lines [OF assms(1)] obtain rs where rs: "blocks_fold bs = Inr rs"
    and df: "df = rename pf_renames (DataFrame rs)"
    by (auto split: sum.splits)
  from rs have all2: "list_all2 (\<lambda>b r. rows_fold b temp_rxn_init = Inr r) bs rs"
    by (simp add: blocks_fold_Inr)
  then have "length rs = length bs"
    by (simp add: list_all2_lengthD)
  moreover have "rows_fold (bs ! i) temp_rxn_init = Inr (rs ! i)" if "i < length bs" for i
    using list_all2_nthD [OF all2 that] .
  ultimately show ?thesis using df by blast
qed

subsection \<open>The fields of a record\<close>

text \<open>A file of two blocks, the first with an \<open>ID\<close> row only, the second with an \<open>EC\<close>
  row only, and the frame the parser returns for it.\<close>

lemma example_parse:
  "rxn_df_of_lines (pf_lines [[pf_row ''ID'' ''a''], [pf_row ''EC'' ''1'']]) =
     Inr \<lparr>columns = [''ec'', ''metacyc'', ''ORF_ID''],
          rows = [[Some (Lst []), Some (Lst []), Some (Str (pf_row ''ID'' ''a''))],
                  [Some (Lst [pf_row ''EC'' ''1'']), Some (Lst []), None]]\<rparr>"
proof -
  have "\<forall>b\<in>set [[pf_row ''ID'' ''a''], [pf_row ''EC'' ''1'']]. ''//'' \<notin> set b"
    using pf_row_not_end by (simp add: eq_commute [of "''//''"])
  from rxn_df_of_pf_lines [OF this] show ?thesis
    by (simp add: convert_pf_row rxn_store_def dict_append_def temp_rxn_init_def TAB_def
        DataFrame_def rename_def relabel_pf)
qed

text \<open>
  C8. Every block starts from \<open>temp_rxn_init\<close>, where \<open>ec\<close> and \<open>metacyc\<close> are empty
  lists. In every document the parser returns there is one record for each block, and every
  record has exactly one cell under \<open>ec\<close> and one under \<open>metacyc\<close>, neither of them
  missing; for a block without a row of key \<open>EC\<close> (or \<open>ec\<close>) the cell under \<open>ec\<close> is the
  empty list, and likewise for \<open>METACYC\<close> and \<open>metacyc\<close>.
\<close>

theorem ec_metacyc_always_present:
  assumes "\<forall>b\<in>set bs. ''//'' \<notin> set b" and "rxn_df_of_lines (pf_lines bs) = Inr df"
  shows "length (rows df) = length bs
    \<and> (\<forall>i<length bs.
          (\<exists>v. cells df i ''ec'' = [Some v]) \<and> (\<exists>v. cells df i ''metacyc'' = [Some v])
        \<and> ((\<forall>l\<in>set (bs ! i). row_key l \<noteq> Some ''EC'' \<and> row_key l \<noteq> Some ''ec'') \<longrightarrow>
             cells df i ''ec'' = [Some (Lst [])])
        \<and> ((\<forall>l\<in>set (bs ! i). row_key l \<noteq> Some ''METACYC'' \<and> row_key l \<noteq> Some ''metacyc'') \<longrightarrow>
             cells df i ''metacyc'' = [Some (Lst [])]))"
proof -
  from parsed_frame [OF assms] obtain rs where df: "df = rename pf_renames (DataFrame rs)"
    and len: "length rs = length bs"
    and all: "\<forall>i<length bs. rows_fold (bs ! i) temp_rxn_init = Inr (rs ! i)"
    by blast
  note fold = all [rule_format]
  have dist: "\<forall>r\<in>set rs. distinct (map fst r)"
  proof
    fix r assume "r \<in> set rs"
    then obtain i where "i < length rs" and "r = rs ! i"
      by (auto simp: in_set_conv_nth)
    with len fold [of i] show "distinct (map fst r)"
      by (simp add: rows_fold_init_keys(1))
  qed
  have "length (rows df) = length bs"
    by (simp add: df rename_def DataFrame_def len)
  moreover have "(\<exists>v. cells df i ''ec'' = [Some v]) \<and> (\<exists>v. cells df i ''metacyc'' = [Some v])
        \<and> ((\<forall>l\<in>set (bs ! i). row_key l \<noteq> Some ''EC'' \<and> row_key l \<noteq> Some ''ec'') \<longrightarrow>
             cells df i ''ec'' = [Some (Lst [])])
        \<and> ((\<forall>l\<in>set (bs ! i). row_key l \<noteq> Some ''METACYC'' \<and> row_key l \<noteq> Some ''metacyc'') \<longrightarrow>
             cells df i ''metacyc'' = [Some (Lst [])])"
    if i: "i < length bs" for i
  proof -
    note r = fold [OF i]
    from i len have i': "i < length rs" by simp
    from rows_fold_init_keys(2,3) [OF r]
    have ec: "cells df i ''ec'' = [map_of (rs ! i) ''ec'']"
      and mc: "cells df i ''metacyc'' = [map_of (rs ! i) ''metacyc'']"
      unfolding df by (simp_all add: cells_plain [OF i' dist])
    from rows_fold_init_keys(2,3) [OF r]
    have "map_of (rs ! i) ''ec'' \<noteq> None" and "map_of (rs ! i) ''metacyc'' \<noteq> None"
      by (simp_all add: map_of_eq_None_iff)
    with ec mc have "\<exists>v. cells df i ''ec'' = [Some v]" and "\<exists>v. cells df i ''metacyc'' = [Some v]"
      by auto
    moreover have "cells df i ''ec'' = [Some (Lst [])]"
      if "\<forall>l\<in>set (bs ! i). row_key l \<noteq> Some ''EC'' \<and> row_key l \<noteq> Some ''ec''"
      using rows_fold_untouched [OF r _ that] ec by (simp add: temp_rxn_init_lists)
    moreover have "cells df i ''metacyc'' = [Some (Lst [])]"
      if "\<forall>l\<in>set (bs ! i). row_key l \<noteq> Some ''METACYC'' \<and> row_key l \<noteq> Some ''metacyc''"
      using rows_fold_untouched [OF r _ that] mc by (simp add: temp_rxn_init_lists)
    ultimately show ?thesis by blast
  qed
  ultimately show ?thesis by blast
qed

theorem ec_metacyc_always_present_witness:
  "\<exists>df. rxn_df_of_lines [pf_row ''ID'' ''a'', ''//'', pf_row ''EC'' ''1'', ''//''] = Inr df
     \<and> length (rows df) = 2
     \<and> cells df 0 ''ec'' = [Some (Lst [])] \<and> cells df 0 ''metacyc'' = [Some (Lst [])]
     \<and> (\<exists>v. cells df 1 ''ec'' = [Some v]) \<and> cells df 1 ''metacyc'' = [Some (Lst [])]"
proof -
  let ?bs = "[[pf_row ''ID'' ''a''], [pf_row ''EC'' ''1'']]"
  have 1: "\<forall>b\<in>set ?bs. ''//'' \<notin> set b"
    using pf_row_not_end by (simp add: eq_commute [of "''//''"])
  from example_parse obtain df where 2: "rxn_df_of_lines (pf_lines ?bs) = Inr df"
    by blast
  note present = ec_metacyc_always_present [OF 1 2]
  from present have "length (rows df) = 2" by simp
  moreover from present [THEN conjunct2, rule_format, of 0]
  have "cells df 0 ''ec'' = [Some (Lst [])]" and "cells df 0 ''metacyc'' = [Some (Lst [])]"
    by (simp_all add: row_key_pf_row TAB_def)
  moreover from present [THEN conjunct2, rule_format, of 1]
  have "\<exists>v. cells df 1 ''ec'' = [Some v]" and "cells df 1 ''metacyc'' = [Some (Lst [])]"
    by (simp_all add: row_key_pf_row TAB_def)
  moreover from 2
  have "rxn_df_of_lines [pf_row ''ID'' ''a'', ''//'', pf_row ''EC'' ''1'', ''//''] = Inr df"
    by (simp add: pf_lines_def)
  ultimately show ?thesis by blast
qed

text \<open>
  C6 (as amended). In every document the parser returns, no column is labelled \<open>ID\<close> or
  \<open>PRODUCT-TYPE\<close> any more; the record of a block with a row of key \<open>ID\<close> has under
  \<open>ORF_ID\<close> the text of the last such row, and the record of a block with a row of key
  \<open>PRODUCT-TYPE\<close> has under \<open>PRODUCT_TYPE\<close> the text of the last such row.
\<close>

theorem renamed_fields_of_blocks:
  assumes "\<forall>b\<in>set bs. ''//'' \<notin> set b" and "rxn_df_of_lines (pf_lines bs) = Inr df"
  shows "''ID'' \<notin> set (columns df) \<and> ''PRODUCT-TYPE'' \<notin> set (columns df)
    \<and> (\<forall>i<length bs.
          (\<forall>l ls. filter (\<lambda>l. row_key l = Some ''ID'') (bs ! i) = l # ls \<longrightarrow>
             Some (Str (last (l # ls))) \<in> set (cells df i ''ORF_ID''))
        \<and> (\<forall>l ls. filter (\<lambda>l. row_key l = Some ''PRODUCT-TYPE'') (bs ! i) = l # ls \<longrightarrow>
             Some (Str (last (l # ls))) \<in> set (cells df i ''PRODUCT_TYPE'')))"
proof -
  from parsed_frame [OF assms] obtain rs where df: "df = rename pf_renames (DataFrame rs)"
    and len: "length rs = length bs"
    and all: "\<forall>i<length bs. rows_fold (bs ! i) temp_rxn_init = Inr (rs ! i)"
    by blast
  note fold = all [rule_format]
  have cols: "''ID'' \<notin> set (columns df) \<and> ''PRODUCT-TYPE'' \<notin> set (columns df)"
    unfolding df using renamed_columns by blast
  have field: "Some (Str (last (l # ls))) \<in> set (cells df i (relabel pf_renames k))"
    if i: "i < length bs" and k: "k \<notin> {''EC'', ''METACYC'', ''ec'', ''metacyc''}"
      and f: "filter (\<lambda>l. row_key l = Some k) (bs ! i) = l # ls" for i k l ls
  proof -
    from rows_fold_plain_key [OF fold [OF i] k] f
    have "map_of (rs ! i) k = Some (Str (last (l # ls)))" by simp
    moreover from i len have "i < length rs" by simp
    ultimately show ?thesis unfolding df by (intro cells_renamed)
  qed
  have "(\<forall>l ls. filter (\<lambda>l. row_key l = Some ''ID'') (bs ! i) = l # ls \<longrightarrow>
             Some (Str (last (l # ls))) \<in> set (cells df i ''ORF_ID''))
        \<and> (\<forall>l ls. filter (\<lambda>l. row_key l = Some ''PRODUCT-TYPE'') (bs ! i) = l # ls \<longrightarrow>
             Some (Str (last (l # ls))) \<in> set (cells df i ''PRODUCT_TYPE''))"
    if i: "i < length bs" for i
    using field [OF i, of "''ID''"] field [OF i, of "''PRODUCT-TYPE''"]
    by (simp add: relabel_pf)
  with cols show ?thesis by blast
qed

theorem renamed_fields_of_blocks_witness:
  "\<exists>df. rxn_df_of_lines [pf_row ''ID'' ''a'', ''//'', pf_row ''EC'' ''1'', ''//''] = Inr df
     \<and> ''ID'' \<notin> set (columns df) \<and> ''PRODUCT-TYPE'' \<notin> set (columns df)
     \<and> Some (Str (pf_row ''ID'' ''a'')) \<in> set (cells df 0 ''ORF_ID'')"
proof -
  let ?bs = "[[pf_row ''ID'' ''a''], [pf_row ''EC'' ''1'']]"
  have 1: "\<forall>b\<in>set ?bs. ''//'' \<notin> set b"
    using pf_row_not_end by (simp add: eq_commute [of "''//''"])
  from example_parse obtain df where 2: "rxn_df_of_lines (pf_lines ?bs) = Inr df"
    by blast
  note fields = renamed_fields_of_blocks [OF 1 2]
  from fields have "''ID'' \<notin> set (columns df)" and "''PRODUCT-TYPE'' \<notin> set (columns df)"
    by blast+
  moreover from fields
  have "\<forall>l ls. filter (\<lambda>l. row_key l = Some ''ID'') (?bs ! 0) = l # ls \<longrightarrow>
             Some (Str (last (l # ls))) \<in> set (cells df 0 ''ORF_ID'')"
    by simp
  then have "Some (Str (pf_row ''ID'' ''a'')) \<in> set (cells df 0 ''ORF_ID'')"
    by (simp add: row_key_pf_row TAB_def)
  moreover from 2
  have "rxn_df_of_lines [pf_row ''ID'' ''a'', ''//'', pf_row ''EC'' ''1'', ''//''] = Inr df"
    by (simp add: pf_lines_def)
  ultimately show ?thesis by blast
qed

text \<open>The claim as stated fails: nothing makes a block have an \<open>ID\<close> or a
  \<open>PRODUCT-TYPE\<close> row. In the file below the second record has a missing value under
  \<open>ORF_ID\<close>, and the document has no column \<open>PRODUCT_TYPE\<close> at all.\<close>

theorem renamed_fields_missing:
  "rxn_df_of_lines [pf_row ''ID'' ''a'', ''//'', pf_row ''EC'' ''1'', ''//''] =
     Inr \<lparr>columns = [''ec'', ''metacyc'', ''ORF_ID''],
          rows = [[Some (Lst []), Some (Lst []), Some (Str (pf_row ''ID'' ''a''))],
                  [Some (Lst [pf_row ''EC'' ''1'']), Some (Lst []), None]]\<rparr>"
  using example_parse by (simp add: pf_lines_def)

subsection \<open>When the parser fails\<close>

lemma blocks_fold_result:
  assumes "\<forall>b\<in>set bs. \<forall>l\<in>set b. row_key l \<noteq> Some ''ec'' \<and> row_key l \<noteq> Some ''metacyc''"
  shows "if \<exists>b\<in>set bs. \<exists>l\<in>set b. row_key l = None then blocks_fold bs = Inl IndexError
         else \<exists>rs. blocks_fold bs = Inr rs"
  using assms
proof (induction bs)
  case Nil
  then show ?case by simp
next
  case (Cons b bs)
  from Cons.prems have b: "\<forall>l\<in>set b. row_key l \<noteq> Some ''ec'' \<and> row_key l \<noteq> Some ''metacyc''"
    and bs: "\<forall>b\<in>set bs. \<forall>l\<in>set b. row_key l \<noteq> Some ''ec'' \<and> row_key l \<noteq> Some ''metacyc''"
    by simp_all
  note first = rows_fold_result [OF b temp_rxn_init_lists]
  note rest = Cons.IH [OF bs]
  show ?case
  proof (cases "\<exists>l\<in>set b. row_key l = None")
    case True
    with first show ?thesis by simp
  next
    case False
    with first obtain r where "rows_fold b temp_rxn_init = Inr r" by auto
    with False rest show ?thesis by (auto split: if_splits)
  qed
qed

lemma set_pf_lines:
  "set (pf_lines bs) = (\<Union>b\<in>set bs. set b) \<union> (if bs = [] then {} else {''//''})"
  by (induction bs) (auto simp: pf_lines_def)

lemma unterminated_iff:
  assumes "ls = pf_lines bs @ post" and "''//'' \<notin> set post"
  shows "(ls \<noteq> [] \<and> last ls \<noteq> ''//'') \<longleftrightarrow> post \<noteq> []"
proof (cases "post = []")
  case False
  from False have "last post \<in> set post" by (rule last_in_set)
  moreover from False assms(1) have "last ls = last post" by simp
  ultimately have "last ls \<in> set post" by simp
  with assms(2) have "last ls \<noteq> ''//''" by auto
  with False assms(1) show ?thesis by simp
next
  case True
  show ?thesis
  proof (cases bs rule: rev_cases)
    case Nil
    with True assms show ?thesis by (simp add: pf_lines_def)
  next
    case (snoc bs' b)
    with True assms have "last ls = ''//''" by (simp add: pf_lines_def)
    with True show ?thesis by simp
  qed
qed

text \<open>The outcome of the parser on any list of lines, cut into its terminated blocks and
  the lines after the last terminator.\<close>

lemma rxn_df_of_lines_cut:
  assumes "\<forall>b\<in>set bs. ''//'' \<notin> set b" and "''//'' \<notin> set post"
  shows "rxn_df_of_lines (pf_lines bs @ post) =
    (case blocks_fold bs of
       Inl e \<Rightarrow> Inl e
     | Inr rs \<Rightarrow>
         if post = [] then Inr (rename pf_renames (DataFrame rs))
         else (case rows_fold post temp_rxn_init of Inl e \<Rightarrow> Inl e | Inr t \<Rightarrow> Inl IndexError))"
  using pl_outer_blocks [OF assms, of "[]" "[]"]
  by (simp add: rxn_df_of_lines_def split: sum.splits)

lemma unterminated_fails:
  assumes "ls \<noteq> []" and "last ls \<noteq> ''//''"
  shows "\<exists>e. rxn_df_of_lines ls = Inl e"
    and "\<forall>l\<in>set ls. row_key l \<noteq> Some ''ec'' \<and> row_key l \<noteq> Some ''metacyc''
      \<Longrightarrow> rxn_df_of_lines ls = Inl IndexError"
proof -
  from lines_blocks [of ls] obtain bs post where ls: "ls = pf_lines bs @ post"
    and bs: "\<forall>b\<in>set bs. ''//'' \<notin> set b" and post: "''//'' \<notin> set post"
    by blast
  from unterminated_iff [OF ls post] assms have ne: "post \<noteq> []" by simp
  note cut = rxn_df_of_lines_cut [OF bs post, folded ls]
  from cut ne show "\<exists>e. rxn_df_of_lines ls = Inl e"
    by (auto split: sum.splits)
  assume nk: "\<forall>l\<in>set ls. row_key l \<noteq> Some ''ec'' \<and> row_key l \<noteq> Some ''metacyc''"
  then have "\<forall>b\<in>set bs. \<forall>l\<in>set b. row_key l \<noteq> Some ''ec'' \<and> row_key l \<noteq> Some ''metacyc''"
    and "\<forall>l\<in>set post. row_key l \<noteq> Some ''ec'' \<and> row_key l \<noteq> Some ''metacyc''"
    by (auto simp: ls set_pf_lines)
  from blocks_fold_result [OF this(1)] rows_fold_result [OF this(2) temp_rxn_init_lists]
  have "blocks_fold bs = Inl IndexError \<or> (\<exists>rs. blocks_fold bs = Inr rs)"
    and "rows_fold post temp_rxn_init = Inl IndexError
      \<or> (\<exists>t. rows_fold post temp_rxn_init = Inr t)"
    by (simp_all split: if_splits)
  with cut ne show "rxn_df_of_lines ls = Inl IndexError"
    by auto
qed

lemma example_lines:
  "map rstrip (file_lines (''//'' @ [NL, NL])) = [''//'', []]"
  "map rstrip (file_lines (''//'' @ [NL] @ pf_row ''ec'' ''x'' @ [NL] @ pf_row ''EC'' ''1'' @ [NL]))
     = [''//'', pf_row ''ec'' ''x'', pf_row ''EC'' ''1'']"
  by (simp_all add: file_lines_def rstrip_def isspace_def NL_def pf_row_def TAB_def)

text \<open>
  C9 (as amended). When the lines read from the file do not end with a \<open>//\<close> (something
  follows the last terminator, be it a single empty line), the parser raises instead of
  returning a document; the exception is \<open>IndexError\<close> whenever no line has the lower-case
  key \<open>ec\<close> or \<open>metacyc\<close>.
\<close>

theorem trailing_lines_fail:
  assumes "fs pl = Some txt"
    and "map rstrip (file_lines txt) \<noteq> []"
    and "last (map rstrip (file_lines txt)) \<noteq> ''//''"
  shows "(\<exists>e. convert_pl_input_to_rxn_df fs pl = Inl e)
    \<and> ((\<forall>l\<in>set (map rstrip (file_lines txt)).
           row_key l \<noteq> Some ''ec'' \<and> row_key l \<noteq> Some ''metacyc'') \<longrightarrow>
         convert_pl_input_to_rxn_df fs pl = Inl IndexError)"
  using assms(1) unterminated_fails [OF assms(2,3)]
  by (simp add: convert_pl_input_to_rxn_df_def)

theorem trailing_lines_fail_witness:
  "convert_pl_input_to_rxn_df (\<lambda>p. Some (''//'' @ [NL, NL])) ''0.pf'' = Inl IndexError"
proof -
  let ?txt = "''//'' @ [NL, NL]"
  have 1: "(\<lambda>p. Some ?txt) ''0.pf'' = Some ?txt" by simp
  have 2: "map rstrip (file_lines ?txt) \<noteq> []" and 3: "last (map rstrip (file_lines ?txt)) \<noteq> ''//''"
    unfolding example_lines by simp_all
  have 4: "\<forall>l\<in>set (map rstrip (file_lines ?txt)).
           row_key l \<noteq> Some ''ec'' \<and> row_key l \<noteq> Some ''metacyc''"
    unfolding example_lines
    by (simp add: row_key_def convert_rxn_row_list_format_def find_tab.simps TAB_def)
  from trailing_lines_fail [of "\<lambda>p. Some ?txt", OF 1 2 3, THEN conjunct2, THEN mp, OF 4]
  show ?thesis .
qed

text \<open>The claim as stated fails: after the last terminator, a row of key \<open>ec\<close> followed
  by a row of key \<open>EC\<close> raises \<open>AttributeError\<close> before the end of the input is
  reached.\<close>

theorem trailing_lines_attribute_error:
  "convert_pl_input_to_rxn_df
     (\<lambda>p. Some (''//'' @ [NL] @ pf_row ''ec'' ''x'' @ [NL] @ pf_row ''EC'' ''1'' @ [NL])) ''0.pf''
   = Inl AttributeError"
proof -
  have "\<forall>b\<in>set [[]]. ''//'' \<notin> set (b :: string list)"
    and "''//'' \<notin> set [pf_row ''ec'' ''x'', pf_row ''EC'' ''1'']"
    using pf_row_not_end by (simp_all add: eq_commute [of "''//''"])
  from rxn_df_of_lines_cut [OF this]
  have "rxn_df_of_lines [''//'', pf_row ''ec'' ''x'', pf_row ''EC'' ''1''] = Inl AttributeError"
    by (simp add: pf_lines_def convert_pf_row rxn_store_def dict_append_def temp_rxn_init_def
        TAB_def)
  then show ?thesis
    by (simp only: convert_pl_input_to_rxn_df_def example_lines option.case)
qed

subsection \<open>The parser and the words of the specification\<close>

text \<open>A line that does not begin with a tab has the key the specification gives it.\<close>

lemma row_key_line_key: "take 1 l \<noteq> [TAB] \<Longrightarrow> row_key l = line_key l"
  by (simp add: row_key_def line_key_def convert_row_plain)

lemma convert_line_key:
  "take 1 l \<noteq> [TAB] \<Longrightarrow> convert_rxn_row_list_format l =
     (case line_key l of None \<Rightarrow> Inl IndexError | Some k \<Rightarrow> Inr (k, l))"
  by (simp add: line_key_def convert_row_plain)

text \<open>The outcome of a block from a state whose flags are \<open>e\<close> and \<open>m\<close>.\<close>

lemma rows_fold_fault:
  assumes "\<forall>l\<in>set b. take 1 l \<noteq> [TAB]"
    and "if e then \<exists>s. map_of t ''ec'' = Some (Str s) else \<exists>xs. map_of t ''ec'' = Some (Lst xs)"
    and "if m then \<exists>s. map_of t ''metacyc'' = Some (Str s)
         else \<exists>xs. map_of t ''metacyc'' = Some (Lst xs)"
  shows "case first_fault e m b of
           Some err \<Rightarrow> rows_fold b t = Inl err
         | None \<Rightarrow> (\<exists>r. rows_fold b t = Inr r)"
  using assms
proof (induction b arbitrary: t e m)
  case Nil
  then show ?case by simp
next
  case (Cons l b)
  from Cons.prems(1) have l: "take 1 l \<noteq> [TAB]" and b: "\<forall>l\<in>set b. take 1 l \<noteq> [TAB]"
    by simp_all
  show ?case
  proof (cases "line_key l")
    case None
    with l show ?thesis by (simp add: convert_line_key)
  next
    case (Some k)
    consider (ec) "k = ''EC''" | (mc) "k = ''METACYC''" | (other) "k \<noteq> ''EC''" "k \<noteq> ''METACYC''"
      by blast
    then show ?thesis
    proof cases
      case ec
      show ?thesis
      proof (cases e)
        case True
        with Cons.prems(2) ec Some l show ?thesis
          by (auto simp: convert_line_key rxn_store_def dict_append_def)
      next
        case False
        with Cons.prems(2) obtain xs where xs: "map_of t ''ec'' = Some (Lst xs)" by auto
        let ?t = "AList.update ''ec'' (Lst (xs @ [l])) t"
        have store: "rxn_store t (k, l) = Inr ?t"
          using ec xs by (simp add: rxn_store_def dict_append_def)
        have "if e then \<exists>s. map_of ?t ''ec'' = Some (Str s)
              else \<exists>xs. map_of ?t ''ec'' = Some (Lst xs)"
          using False by (simp add: update_conv')
        moreover have "if m then \<exists>s. map_of ?t ''metacyc'' = Some (Str s)
              else \<exists>xs. map_of ?t ''metacyc'' = Some (Lst xs)"
          using Cons.prems(3) by (simp add: update_conv')
        ultimately have "case first_fault e m b of
           Some err \<Rightarrow> rows_fold b ?t = Inl err
         | None \<Rightarrow> (\<exists>r. rows_fold b ?t = Inr r)"
          by (rule Cons.IH [OF b])
        with ec Some l store False show ?thesis
          by (simp add: convert_line_key split: option.splits)
      qed
    next
      case mc
      show ?thesis
      proof (cases m)
        case True
        with Cons.prems(3) mc Some l show ?thesis
          by (auto simp: convert_line_key rxn_store_def dict_append_def)
      next
        case False
        with Cons.prems(3) obtain xs where xs: "map_of t ''metacyc'' = Some (Lst xs)" by auto
        let ?t = "AList.update ''metacyc'' (Lst (xs @ [l])) t"
        have store: "rxn_store t (k, l) = Inr ?t"
          using mc xs by (simp add: rxn_store_def dict_append_def)
        have "if e then \<exists>s. map_of ?t ''ec'' = Some (Str s)
              else \<exists>xs. map_of ?t ''ec'' = Some (Lst xs)"
          using Cons.prems(2) by (simp add: update_conv')
        moreover have "if m then \<exists>s. map_of ?t ''metacyc'' = Some (Str s)
              else \<exists>xs. map_of ?t ''metacyc'' = Some (Lst xs)"
          using False by (simp add: update_conv')
        ultimately have "case first_fault e m b of
           Some err \<Rightarrow> rows_fold b ?t = Inl err
         | None \<Rightarrow> (\<exists>r. rows_fold b ?t = Inr r)"
          by (rule Cons.IH [OF b])
        with mc Some l store False show ?thesis
          by (simp add: convert_line_key split: option.splits)
      qed
    next
      case other
      let ?t = "AList.update k (Str l) t"
      let ?e = "e \<or> k = ''ec''" and ?m = "m \<or> k = ''metacyc''"
      have store: "rxn_store t (k, l) = Inr ?t"
        using other by (simp add: rxn_store_def)
      have "if ?e then \<exists>s. map_of ?t ''ec'' = Some (Str s)
            else \<exists>xs. map_of ?t ''ec'' = Some (Lst xs)"
        using Cons.prems(2) by (auto simp: update_conv')
      moreover have "if ?m then \<exists>s. map_of ?t ''metacyc'' = Some (Str s)
            else \<exists>xs. map_of ?t ''metacyc'' = Some (Lst xs)"
        using Cons.prems(3) by (auto simp: update_conv')
      ultimately have "case first_fault ?e ?m b of
           Some err \<Rightarrow> rows_fold b ?t = Inl err
         | None \<Rightarrow> (\<exists>r. rows_fold b ?t = Inr r)"
        by (rule Cons.IH [OF b])
      with other Some l store show ?thesis
        by (simp add: convert_line_key split: option.splits)
    qed
  qed
qed

lemma line_key_None: "line_key l = None \<longleftrightarrow> TAB \<notin> set l"
  by (simp add: line_key_def)

lemma key_follows_last: "key_follows K k b \<Longrightarrow> \<exists>l\<in>set b. line_key l = Some K"
  by (induction b) auto

text \<open>What the flags and the keys say about the first exception.\<close>

lemma first_fault_None:
  "first_fault e m b = None \<longleftrightarrow>
     (\<forall>l\<in>set b. TAB \<in> set l)
     \<and> (if e then \<forall>l\<in>set b. line_key l \<noteq> Some ''EC'' else \<not> key_follows ''EC'' ''ec'' b)
     \<and> (if m then \<forall>l\<in>set b. line_key l \<noteq> Some ''METACYC''
         else \<not> key_follows ''METACYC'' ''metacyc'' b)"
proof (induction b arbitrary: e m)
  case Nil
  then show ?case by simp
next
  case (Cons l b)
  show ?case
  proof (cases "line_key l")
    case None
    moreover from None have "TAB \<notin> set l" by (simp add: line_key_None)
    ultimately show ?thesis by auto
  next
    case (Some k)
    then have tab: "TAB \<in> set l" by (simp add: line_key_def split: if_splits)
    consider (ec) "k = ''EC''" | (mc) "k = ''METACYC''" | (lec) "k = ''ec''" | (lmc) "k = ''metacyc''"
      | (other) "k \<notin> {''EC'', ''METACYC'', ''ec'', ''metacyc''}"
      by blast
    then show ?thesis
    proof cases
      case ec
      with Some tab show ?thesis by (cases e; cases m; simp add: Cons.IH)
    next
      case mc
      with Some tab show ?thesis by (cases e; cases m; simp add: Cons.IH)
    next
      case lec
      with Some tab key_follows_last [of "''EC''" "''ec''" b] show ?thesis
        by (cases e; cases m; auto simp add: Cons.IH)
    next
      case lmc
      with Some tab key_follows_last [of "''METACYC''" "''metacyc''" b] show ?thesis
        by (cases e; cases m; auto simp add: Cons.IH)
    next
      case other
      with Some tab show ?thesis by (cases e; cases m; simp add: Cons.IH)
    qed
  qed
qed

lemma first_fault_kind:
  "first_fault e m b = Some err \<Longrightarrow> err = IndexError \<or> err = AttributeError"
  by (induction e m b rule: first_fault.induct) (auto split: option.splits if_splits)

lemma first_fault_attribute:
  "first_fault e m b = Some AttributeError \<Longrightarrow>
     (if e then \<exists>l\<in>set b. line_key l = Some ''EC'' else key_follows ''EC'' ''ec'' b)
     \<or> (if m then \<exists>l\<in>set b. line_key l = Some ''METACYC''
         else key_follows ''METACYC'' ''metacyc'' b)"
proof (induction b arbitrary: e m)
  case Nil
  then show ?case by simp
next
  case (Cons l b)
  show ?case
  proof (cases "line_key l")
    case None
    with Cons.prems show ?thesis by simp
  next
    case (Some k)
    consider (ec) "k = ''EC''" | (mc) "k = ''METACYC''" | (lec) "k = ''ec''" | (lmc) "k = ''metacyc''"
      | (other) "k \<notin> {''EC'', ''METACYC'', ''ec'', ''metacyc''}"
      by blast
    then show ?thesis
    proof cases
      case ec
      with Some Cons.prems Cons.IH [of e m] show ?thesis
        by (cases e; cases m; auto)
    next
      case mc
      with Some Cons.prems Cons.IH [of e m] show ?thesis
        by (cases e; cases m; auto)
    next
      case lec
      with Some Cons.prems Cons.IH [of True m] show ?thesis
        by (cases e; cases m; auto)
    next
      case lmc
      with Some Cons.prems Cons.IH [of e True] show ?thesis
        by (cases e; cases m; auto)
    next
      case other
      with Some Cons.prems Cons.IH [of e m] show ?thesis
        by (cases e; cases m; auto)
    qed
  qed
qed

lemma rows_fold_init_outcome:
  assumes "\<forall>l\<in>set b. take 1 l \<noteq> [TAB]"
  shows "(\<exists>r. rows_fold b temp_rxn_init = Inr r) \<longleftrightarrow> (\<forall>l\<in>set b. TAB \<in> set l) \<and> \<not> clash b"
    and "\<not> clash b \<Longrightarrow> \<not> (\<forall>l\<in>set b. TAB \<in> set l) \<Longrightarrow> rows_fold b temp_rxn_init = Inl IndexError"
proof -
  have fault: "case first_fault False False b of
           Some err \<Rightarrow> rows_fold b temp_rxn_init = Inl err
         | None \<Rightarrow> (\<exists>r. rows_fold b temp_rxn_init = Inr r)"
    by (rule rows_fold_fault [OF assms]) (simp_all add: temp_rxn_init_lists)
  have none: "first_fault False False b = None \<longleftrightarrow> (\<forall>l\<in>set b. TAB \<in> set l) \<and> \<not> clash b"
    by (simp add: first_fault_None clash_def)
  show "(\<exists>r. rows_fold b temp_rxn_init = Inr r) \<longleftrightarrow> (\<forall>l\<in>set b. TAB \<in> set l) \<and> \<not> clash b"
    unfolding none [symmetric] using fault by (cases "first_fault False False b") auto
  show "rows_fold b temp_rxn_init = Inl IndexError"
    if nc: "\<not> clash b" and nt: "\<not> (\<forall>l\<in>set b. TAB \<in> set l)"
  proof -
    from nt none obtain err where err: "first_fault False False b = Some err"
      by (cases "first_fault False False b") auto
    from first_fault_attribute [of False False b] nc have "err \<noteq> AttributeError"
      using err by (auto simp: clash_def)
    with first_fault_kind [OF err] have "err = IndexError" by simp
    with fault err show ?thesis by simp
  qed
qed

lemma blocks_fold_outcome:
  assumes "\<forall>b\<in>set bs. \<forall>l\<in>set b. take 1 l \<noteq> [TAB]"
  shows "(\<exists>rs. blocks_fold bs = Inr rs) \<longleftrightarrow> (\<forall>b\<in>set bs. (\<forall>l\<in>set b. TAB \<in> set l) \<and> \<not> clash b)"
    and "\<forall>b\<in>set bs. \<not> clash b \<Longrightarrow> blocks_fold bs = Inl e \<Longrightarrow> e = IndexError"
proof -
  show "(\<exists>rs. blocks_fold bs = Inr rs) \<longleftrightarrow> (\<forall>b\<in>set bs. (\<forall>l\<in>set b. TAB \<in> set l) \<and> \<not> clash b)"
    using assms
  proof (induction bs)
    case Nil
    then show ?case by simp
  next
    case (Cons b bs)
    from Cons.prems have b: "\<forall>l\<in>set b. take 1 l \<noteq> [TAB]"
      and bs: "\<forall>b\<in>set bs. \<forall>l\<in>set b. take 1 l \<noteq> [TAB]"
      by simp_all
    have "(\<exists>rs. blocks_fold (b # bs) = Inr rs) \<longleftrightarrow>
      (\<exists>r. rows_fold b temp_rxn_init = Inr r) \<and> (\<exists>rs. blocks_fold bs = Inr rs)"
      by (auto split: sum.splits)
    then show ?case
      unfolding rows_fold_init_outcome(1) [OF b] Cons.IH [OF bs] by simp
  qed
  show "e = IndexError" if "\<forall>b\<in>set bs. \<not> clash b" and "blocks_fold bs = Inl e"
    using assms that
  proof (induction bs)
    case Nil
    then show ?case by simp
  next
    case (Cons b bs)
    from Cons.prems have b: "\<forall>l\<in>set b. take 1 l \<noteq> [TAB]"
      and bs: "\<forall>b\<in>set bs. \<forall>l\<in>set b. take 1 l \<noteq> [TAB]"
      and nb: "\<not> clash b" and nbs: "\<forall>b\<in>set bs. \<not> clash b"
      by simp_all
    show ?case
    proof (cases "rows_fold b temp_rxn_init")
      case (Inl e')
      with rows_fold_init_outcome [OF b] nb have "e' = IndexError" by auto
      with Inl Cons.prems(3) show ?thesis by simp
    next
      case (Inr r)
      with Cons.prems(3) have "blocks_fold bs = Inl e" by (simp split: sum.splits)
      with Cons.IH [OF bs nbs] show ?thesis by simp
    qed
  qed
qed

text \<open>The values a record holds.\<close>

lemma rows_fold_upper_key:
  assumes "rows_fold b t = Inr r" and "K = ''EC'' \<or> K = ''METACYC''"
  shows "map_of r K = map_of t K"
  using assms(1)
proof (induction b arbitrary: t)
  case Nil
  then show ?case by simp
next
  case (Cons l b)
  then obtain p t' where store: "rxn_store t p = Inr t'" and rest: "rows_fold b t' = Inr r"
    by (auto split: sum.splits)
  from rxn_store_cases [OF store] assms(2) have "map_of t' K = map_of t K" by auto
  with Cons.IH [OF rest] show ?case by simp
qed

lemma rows_fold_string_stays:
  assumes "rows_fold b t = Inr r"
    and "(K, k) = (''EC'', ''ec'') \<or> (K, k) = (''METACYC'', ''metacyc'')"
    and "map_of t k = Some (Str s)"
    and "\<forall>l\<in>set b. row_key l \<noteq> Some k"
  shows "map_of r k = Some (Str s)"
  using assms(1,3,4)
proof (induction b arbitrary: t)
  case Nil
  then show ?case by simp
next
  case (Cons l b)
  then obtain p t' where p: "convert_rxn_row_list_format l = Inr p"
    and store: "rxn_store t p = Inr t'" and rest: "rows_fold b t' = Inr r"
    by (auto split: sum.splits)
  from p have key: "row_key l = Some (fst p)" by (simp add: row_key_def)
  with Cons.prems(3) have "fst p \<noteq> k" by auto
  with rxn_store_cases [OF store] assms(2) Cons.prems(2) have "map_of t' k = Some (Str s)"
    by auto
  moreover from Cons.prems(3) have "\<forall>l\<in>set b. row_key l \<noteq> Some k" by simp
  ultimately show ?case using Cons.IH [OF rest] by simp
qed

lemma rows_fold_replaced:
  assumes "rows_fold b t = Inr r"
    and "(K, k) = (''EC'', ''ec'') \<or> (K, k) = (''METACYC'', ''metacyc'')"
    and "filter (\<lambda>l. row_key l = Some k) b = l # ls"
  shows "map_of r k = Some (Str (last (l # ls)))"
  using assms(1,3)
proof (induction b arbitrary: t l ls)
  case Nil
  then show ?case by simp
next
  case (Cons l0 b)
  then obtain p t' where p: "convert_rxn_row_list_format l0 = Inr p"
    and store: "rxn_store t p = Inr t'" and rest: "rows_fold b t' = Inr r"
    by (auto split: sum.splits)
  from p have key: "row_key l0 = Some (fst p)" and l0: "snd p = l0"
    by (simp_all add: row_key_def convert_row_snd)
  show ?case
  proof (cases "fst p = k")
    case False
    with key Cons.prems(2) have "filter (\<lambda>l. row_key l = Some k) b = l # ls" by simp
    from Cons.IH [OF rest this] show ?thesis .
  next
    case True
    with rxn_store_cases [OF store] assms(2) l0 have t': "map_of t' k = Some (Str l0)"
      by auto
    from True key Cons.prems(2) have l: "l = l0" and ls: "filter (\<lambda>l. row_key l = Some k) b = ls"
      by simp_all
    show ?thesis
    proof (cases ls)
      case Nil
      with ls have "\<forall>l\<in>set b. row_key l \<noteq> Some k"
        by (simp add: filter_empty_conv)
      from rows_fold_string_stays [OF rest assms(2) t' this] Nil l show ?thesis by simp
    next
      case (Cons l1 ls1)
      with ls Cons.IH [OF rest, of l1 ls1] show ?thesis by simp
    qed
  qed
qed

lemma rows_fold_spec_field:
  assumes "rows_fold b temp_rxn_init = Inr r" and "\<forall>l\<in>set b. take 1 l \<noteq> [TAB]"
  shows "map_of r = spec_field b"
proof
  fix k
  have keys: "filter (\<lambda>l. row_key l = Some k') b = filter (\<lambda>l. line_key l = Some k') b" for k'
    using assms(2) by (intro filter_cong) (simp_all add: row_key_line_key)
  consider (upper) "k = ''EC'' \<or> k = ''METACYC''"
    | (lower) "k = ''ec'' \<or> k = ''metacyc''"
    | (plain) "k \<notin> {''EC'', ''METACYC'', ''ec'', ''metacyc''}"
    by blast
  then show "map_of r k = spec_field b k"
  proof cases
    case upper
    with rows_fold_upper_key [OF assms(1) upper] show ?thesis
      by (auto simp: spec_field_def temp_rxn_init_def)
  next
    case plain
    with rows_fold_plain_key [OF assms(1) plain] show ?thesis
      by (auto simp: spec_field_def keys temp_rxn_init_def split: list.splits)
  next
    case lower
    then obtain K where pair: "(K, k) = (''EC'', ''ec'') \<or> (K, k) = (''METACYC'', ''metacyc'')"
      by auto
    show ?thesis
    proof (cases "filter (\<lambda>l. row_key l = Some k) b")
      case Nil
      then have "\<forall>l\<in>set b. row_key l \<noteq> Some k"
        by (simp add: filter_empty_conv)
      from rows_fold_list_key [OF assms(1) pair this, of "[]"] pair
      have "map_of r k = Some (Lst (filter (\<lambda>l. row_key l = Some K) b))"
        by (auto simp: temp_rxn_init_lists)
      with Nil pair show ?thesis
        by (auto simp: spec_field_def keys)
    next
      case (Cons l ls)
      from rows_fold_replaced [OF assms(1) pair Cons] Cons lower show ?thesis
        by (auto simp: spec_field_def keys)
    qed
  qed
qed

lemma line_key_pf_row: "TAB \<notin> set k \<Longrightarrow> line_key (pf_row k v) = Some k"
  by (auto simp: line_key_def pf_row_def takeWhile_tail)


lemma convert_pl_input_lines:
  "fs pl = Some txt \<Longrightarrow>
     convert_pl_input_to_rxn_df fs pl = rxn_df_of_lines (map rstrip (file_lines txt))"
  by (simp add: convert_pl_input_to_rxn_df_def)

lemma clash_Nil: "\<not> clash []"
  by (simp add: clash_def)


lemma example_failures:
  "map rstrip (file_lines (pf_row ''ID'' ''a'' @ [NL] @ ''//'' @ [NL] @ pf_row ''EC'' ''1'' @ [NL]))
     = [pf_row ''ID'' ''a'', ''//'', pf_row ''EC'' ''1'']"
  "file_lines (''ID'' @ [TAB, NL] @ ''//'' @ [NL]) = [''ID'' @ [TAB, NL], ''//'' @ [NL]]"
  "map rstrip [''ID'' @ [TAB, NL], ''//'' @ [NL]] = [''ID'', ''//'']"
  "map rstrip (file_lines (pf_row ''ec'' ''x'' @ [NL] @ pf_row ''EC'' ''1'' @ [NL] @ ''//'' @ [NL]))
     = [pf_row ''ec'' ''x'', pf_row ''EC'' ''1'', ''//'']"
  "map rstrip (file_lines (TAB # ''A'' @ [NL] @ ''//'' @ [NL])) = [TAB # ''A'', ''//'']"
  by (simp_all add: file_lines_def rstrip_def isspace_def NL_def pf_row_def TAB_def)

subsection \<open>Repeated keys in a block\<close>

text \<open>
  C4 (as amended). Take a block none of whose lines begins with a tab, the key of a line
  being its text before the first tab. The inner loop returns a record exactly when every
  line has a tab and no line of key \<open>EC\<close> comes after a line of key \<open>ec\<close>, nor one of key
  \<open>METACYC\<close> after one of key \<open>metacyc\<close>. In the record it returns: when the block has
  no line of key \<open>ec\<close>, the list under \<open>ec\<close> is the lines of key \<open>EC\<close> in source order;
  when it has no line of key \<open>metacyc\<close>, the list under \<open>metacyc\<close> is the lines of key
  \<open>METACYC\<close> in source order; every key other than \<open>EC\<close> and \<open>METACYC\<close> that some line
  carries holds the last such line; and a key no line carries is absent.
\<close>

theorem block_keys_accumulate:
  assumes "''//'' \<notin> set b" and "\<forall>l\<in>set b. take 1 l \<noteq> [TAB]"
  shows "((\<exists>r. pl_inner (b @ [''//'']) 0 temp_rxn_init = Inr (length b, r)) \<longleftrightarrow>
            (\<forall>l\<in>set b. TAB \<in> set l) \<and> \<not> clash b)
    \<and> (\<forall>n r. pl_inner (b @ [''//'']) 0 temp_rxn_init = Inr (n, r) \<longrightarrow>
          n = length b
        \<and> ((\<forall>l\<in>set b. line_key l \<noteq> Some ''ec'') \<longrightarrow>
             map_of r ''ec'' = Some (Lst (filter (\<lambda>l. line_key l = Some ''EC'') b)))
        \<and> ((\<forall>l\<in>set b. line_key l \<noteq> Some ''metacyc'') \<longrightarrow>
             map_of r ''metacyc'' = Some (Lst (filter (\<lambda>l. line_key l = Some ''METACYC'') b)))
        \<and> (\<forall>k l ls. k \<noteq> ''EC'' \<and> k \<noteq> ''METACYC''
               \<and> filter (\<lambda>l. line_key l = Some k) b = l # ls \<longrightarrow>
             map_of r k = Some (Str (last (l # ls))))
        \<and> (\<forall>k. k \<notin> {''EC'', ''METACYC'', ''ec'', ''metacyc''}
               \<and> filter (\<lambda>l. line_key l = Some k) b = [] \<longrightarrow>
             map_of r k = None))"
proof (intro conjI allI impI)
  note alone = pl_inner_alone [OF assms(1), of temp_rxn_init]
  show "(\<exists>r. pl_inner (b @ [''//'']) 0 temp_rxn_init = Inr (length b, r)) \<longleftrightarrow>
            (\<forall>l\<in>set b. TAB \<in> set l) \<and> \<not> clash b"
    unfolding rows_fold_init_outcome(1) [OF assms(2), symmetric] alone
    by (auto split: sum.splits)
  fix n r
  assume "pl_inner (b @ [''//'']) 0 temp_rxn_init = Inr (n, r)"
  with alone have n: "n = length b" and r: "rows_fold b temp_rxn_init = Inr r"
    by (auto split: sum.splits)
  note field = rows_fold_spec_field [OF r assms(2)]
  show "n = length b" by (rule n)
  show "map_of r ''ec'' = Some (Lst (filter (\<lambda>l. line_key l = Some ''EC'') b))"
    if "\<forall>l\<in>set b. line_key l \<noteq> Some ''ec''"
  proof -
    from that have "filter (\<lambda>l. line_key l = Some ''ec'') b = []"
      by (simp add: filter_empty_conv)
    then show ?thesis by (simp add: field spec_field_def)
  qed
  show "map_of r ''metacyc'' = Some (Lst (filter (\<lambda>l. line_key l = Some ''METACYC'') b))"
    if "\<forall>l\<in>set b. line_key l \<noteq> Some ''metacyc''"
  proof -
    from that have "filter (\<lambda>l. line_key l = Some ''metacyc'') b = []"
      by (simp add: filter_empty_conv)
    then show ?thesis by (simp add: field spec_field_def)
  qed
  show "map_of r k = Some (Str (last (l # ls)))"
    if "k \<noteq> ''EC'' \<and> k \<noteq> ''METACYC'' \<and> filter (\<lambda>l. line_key l = Some k) b = l # ls"
    for k l ls
    using that by (simp add: field spec_field_def)
  show "map_of r k = None"
    if "k \<notin> {''EC'', ''METACYC'', ''ec'', ''metacyc''}
      \<and> filter (\<lambda>l. line_key l = Some k) b = []" for k
    using that by (simp add: field spec_field_def)
qed

theorem block_keys_accumulate_witness:
  "\<exists>r. pl_inner [pf_row ''EC'' ''1'', pf_row ''metacyc'' ''x'', pf_row ''ID'' ''a'',
                  pf_row ''EC'' ''2'', pf_row ''ID'' ''b'', ''//''] 0 temp_rxn_init = Inr (5, r)
    \<and> map_of r ''ec'' = Some (Lst [pf_row ''EC'' ''1'', pf_row ''EC'' ''2''])
    \<and> map_of r ''metacyc'' = Some (Str (pf_row ''metacyc'' ''x''))
    \<and> map_of r ''ID'' = Some (Str (pf_row ''ID'' ''b''))
    \<and> map_of r ''NAME'' = None"
proof -
  let ?b = "[pf_row ''EC'' ''1'', pf_row ''metacyc'' ''x'', pf_row ''ID'' ''a'',
             pf_row ''EC'' ''2'', pf_row ''ID'' ''b'']"
  have 1: "''//'' \<notin> set ?b"
    using pf_row_not_end by (simp add: eq_commute [of "''//''"])
  have 2: "\<forall>l\<in>set ?b. take 1 l \<noteq> [TAB]"
    by (simp add: pf_row_def TAB_def)
  have tabs: "\<forall>l\<in>set ?b. TAB \<in> set l"
    by (simp add: pf_row_def)
  have nc: "\<not> clash ?b"
    by (simp add: clash_def line_key_pf_row TAB_def)
  note keys = block_keys_accumulate [OF 1 2]
  from keys [THEN conjunct1] tabs nc obtain r
    where r: "pl_inner (?b @ [''//'']) 0 temp_rxn_init = Inr (length ?b, r)"
    by blast
  note parts = keys [THEN conjunct2, THEN spec, THEN spec, THEN mp, OF r]
  note ec = parts [THEN conjunct2, THEN conjunct1, THEN mp]
  note last = parts [THEN conjunct2, THEN conjunct2, THEN conjunct2, THEN conjunct1, rule_format]
  note none = parts [THEN conjunct2, THEN conjunct2, THEN conjunct2, THEN conjunct2, rule_format]
  have "map_of r ''ec'' = Some (Lst [pf_row ''EC'' ''1'', pf_row ''EC'' ''2''])"
    using ec by (simp add: line_key_pf_row TAB_def)
  moreover have "map_of r ''metacyc'' = Some (Str (pf_row ''metacyc'' ''x''))"
    using last [of "''metacyc''" "pf_row ''metacyc'' ''x''" "[]"]
    by (simp add: line_key_pf_row TAB_def)
  moreover have "map_of r ''ID'' = Some (Str (pf_row ''ID'' ''b''))"
    using last [of "''ID''" "pf_row ''ID'' ''a''" "[pf_row ''ID'' ''b'']"]
    by (simp add: line_key_pf_row TAB_def)
  moreover have "map_of r ''NAME'' = None"
    using none [of "''NAME''"] by (simp add: line_key_pf_row TAB_def)
  moreover from r have "pl_inner [pf_row ''EC'' ''1'', pf_row ''metacyc'' ''x'',
      pf_row ''ID'' ''a'', pf_row ''EC'' ''2'', pf_row ''ID'' ''b'', ''//''] 0 temp_rxn_init
      = Inr (5, r)"
    by simp
  ultimately show ?thesis by blast
qed

text \<open>The claim as stated fails: a line with the key \<open>ec\<close> replaces the list under \<open>ec\<close>,
  and the \<open>EC\<close> line collected before it is gone from the record.\<close>

theorem block_keys_overwritten:
  "pl_inner [pf_row ''EC'' ''1'', pf_row ''ec'' ''x'', ''//''] 0 temp_rxn_init
     = Inr (2, [(''ec'', Str (pf_row ''ec'' ''x'')), (''metacyc'', Lst [])])
   \<and> line_key (pf_row ''EC'' ''1'') = Some ''EC''"
proof -
  have "''//'' \<notin> set [pf_row ''EC'' ''1'', pf_row ''ec'' ''x'']"
    using pf_row_not_end by (simp add: eq_commute [of "''//''"])
  from pl_inner_alone [OF this, of temp_rxn_init] show ?thesis
    by (simp add: convert_pf_row line_key_pf_row rxn_store_def dict_append_def temp_rxn_init_def
        TAB_def)
qed

subsection \<open>Records in the order of the blocks\<close>




subsection \<open>The three ways to fail\<close>

text \<open>
  C5 (as amended). Let \<open>ls\<close> be the lines of the file with their trailing whitespace
  stripped, none beginning with a tab, cut into the blocks \<open>bs\<close> closed by a \<open>//\<close> and the
  lines \<open>post\<close> after the last \<open>//\<close>. The parser raises exactly when the input ends
  before a \<open>//\<close> closes the current block, or a line other than \<open>//\<close> contains no tab, or
  in some block a line of key \<open>EC\<close> follows one of key \<open>ec\<close> (or \<open>METACYC\<close> follows
  \<open>metacyc\<close>). When the last is not the case, it raises \<open>IndexError\<close> exactly when one of
  the first two holds. The exception is the result of the function, and a document is
  returned exactly when none of the three holds.
\<close>

theorem pl_format_errors:
  assumes "fs pl = Some txt"
    and "map rstrip (file_lines txt) = ls"
    and "ls = pf_lines bs @ post"
    and "\<forall>b\<in>set bs. ''//'' \<notin> set b" and "''//'' \<notin> set post"
    and "\<forall>l\<in>set ls. take 1 l \<noteq> [TAB]"
  shows "((\<exists>e. convert_pl_input_to_rxn_df fs pl = Inl e) \<longleftrightarrow>
            (ls \<noteq> [] \<and> last ls \<noteq> ''//'') \<or> (\<exists>l\<in>set ls. l \<noteq> ''//'' \<and> TAB \<notin> set l)
            \<or> (\<exists>b\<in>set (bs @ [post]). clash b))
    \<and> (\<not> (\<exists>b\<in>set (bs @ [post]). clash b) \<longrightarrow>
          (convert_pl_input_to_rxn_df fs pl = Inl IndexError \<longleftrightarrow>
             (ls \<noteq> [] \<and> last ls \<noteq> ''//'') \<or> (\<exists>l\<in>set ls. l \<noteq> ''//'' \<and> TAB \<notin> set l)))
    \<and> ((\<exists>df. convert_pl_input_to_rxn_df fs pl = Inr df) \<longleftrightarrow>
          \<not> ((ls \<noteq> [] \<and> last ls \<noteq> ''//'') \<or> (\<exists>l\<in>set ls. l \<noteq> ''//'' \<and> TAB \<notin> set l)
             \<or> (\<exists>b\<in>set (bs @ [post]). clash b)))"
proof -
  have parser: "convert_pl_input_to_rxn_df fs pl = rxn_df_of_lines ls"
    using convert_pl_input_lines [of fs pl "txt", OF assms(1)] assms(2) by simp
  note cut = rxn_df_of_lines_cut [OF assms(4,5), folded assms(3)]
  from assms(6) have tb: "\<forall>b\<in>set bs. \<forall>l\<in>set b. take 1 l \<noteq> [TAB]"
    and tp: "\<forall>l\<in>set post. take 1 l \<noteq> [TAB]"
    by (auto simp: assms(3) set_pf_lines)
  define eof where "eof \<longleftrightarrow> ls \<noteq> [] \<and> last ls \<noteq> ''//''"
  define notab where "notab \<longleftrightarrow> (\<exists>l\<in>set ls. l \<noteq> ''//'' \<and> TAB \<notin> set l)"
  define clashes where "clashes \<longleftrightarrow> (\<exists>b\<in>set (bs @ [post]). clash b)"
  define tabs where "tabs \<longleftrightarrow> (\<forall>b\<in>set bs. \<forall>l\<in>set b. TAB \<in> set l)"
  define ptabs where "ptabs \<longleftrightarrow> (\<forall>l\<in>set post. TAB \<in> set l)"
  define bclash where "bclash \<longleftrightarrow> (\<exists>b\<in>set bs. clash b)"
  define pclash where "pclash \<longleftrightarrow> clash post"
  define fails where "fails \<longleftrightarrow> (\<exists>e. convert_pl_input_to_rxn_df fs pl = Inl e)"
  define err where "err \<longleftrightarrow> convert_pl_input_to_rxn_df fs pl = Inl IndexError"
  define ret where "ret \<longleftrightarrow> (\<exists>df. convert_pl_input_to_rxn_df fs pl = Inr df)"
  have eof: "eof \<longleftrightarrow> post \<noteq> []"
    unfolding eof_def by (rule unterminated_iff [OF assms(3,5)])
  have notab: "notab \<longleftrightarrow> \<not> tabs \<or> \<not> ptabs"
  proof
    assume notab
    then obtain l where "l \<in> set ls" and "l \<noteq> ''//''" and "TAB \<notin> set l"
      unfolding notab_def by blast
    then have "((\<exists>b\<in>set bs. l \<in> set b) \<or> l \<in> set post) \<and> TAB \<notin> set l"
      by (auto simp: assms(3) set_pf_lines split: if_splits)
    then show "\<not> tabs \<or> \<not> ptabs"
      unfolding tabs_def ptabs_def by blast
  next
    assume "\<not> tabs \<or> \<not> ptabs"
    then obtain l where l: "(\<exists>b\<in>set bs. l \<in> set b) \<or> l \<in> set post" and nt: "TAB \<notin> set l"
      unfolding tabs_def ptabs_def by blast
    from l assms(4,5) have "l \<noteq> ''//''" by blast
    moreover from l have "l \<in> set ls"
      by (auto simp: assms(3) set_pf_lines)
    ultimately show notab
      unfolding notab_def using nt by blast
  qed
  have clashes: "clashes \<longleftrightarrow> bclash \<or> pclash"
    unfolding clashes_def bclash_def pclash_def by auto
  have empty: "post = [] \<longrightarrow> ptabs \<and> \<not> pclash"
    unfolding ptabs_def pclash_def by (auto simp: clash_Nil)
  have blocks: "(\<exists>rs. blocks_fold bs = Inr rs) \<longleftrightarrow> tabs \<and> \<not> bclash"
    unfolding blocks_fold_outcome(1) [OF tb] tabs_def bclash_def by blast
  have total: "fails \<longleftrightarrow> \<not> ret"
    unfolding fails_def ret_def by (cases "convert_pl_input_to_rxn_df fs pl") auto
  have ret: "ret \<longleftrightarrow> tabs \<and> \<not> bclash \<and> post = []"
  proof (cases "blocks_fold bs")
    case (Inl e)
    with blocks have "\<not> (tabs \<and> \<not> bclash)" by auto
    moreover from Inl cut have "\<not> ret" by (simp add: ret_def parser)
    ultimately show ?thesis by blast
  next
    case (Inr rs)
    with blocks have ok: "tabs \<and> \<not> bclash" by auto
    show ?thesis
    proof (cases "post = []")
      case True
      with Inr cut ok show ?thesis by (simp add: ret_def parser)
    next
      case False
      with Inr cut have "\<not> ret"
        by (auto simp: ret_def parser split: sum.splits)
      with False show ?thesis by simp
    qed
  qed
  have index: "err" if nc: "\<not> clashes" and nr: "\<not> ret"
  proof (cases "blocks_fold bs")
    case (Inl e)
    from nc clashes have "\<forall>b\<in>set bs. \<not> clash b" by (simp add: bclash_def)
    from blocks_fold_outcome(2) [OF tb this Inl] Inl cut show ?thesis
      by (simp add: err_def parser)
  next
    case (Inr rs)
    with blocks nr ret have ne: "post \<noteq> []" by auto
    from nc clashes have np: "\<not> clash post" by (simp add: pclash_def)
    have "rows_fold post temp_rxn_init = Inl IndexError
      \<or> (\<exists>r. rows_fold post temp_rxn_init = Inr r)"
      using rows_fold_init_outcome [OF tp] np by blast
    with Inr cut ne show ?thesis
      by (auto simp: err_def parser)
  qed
  have nerr: "\<not> (err \<and> ret)"
    unfolding err_def ret_def by auto
  from eof notab clashes empty total ret index nerr
  have "(fails \<longleftrightarrow> eof \<or> notab \<or> clashes)
    \<and> (\<not> clashes \<longrightarrow> (err \<longleftrightarrow> eof \<or> notab))
    \<and> (ret \<longleftrightarrow> \<not> (eof \<or> notab \<or> clashes))"
    by (cases tabs; cases ptabs; cases bclash; cases pclash; cases "post = []"; cases ret;
        cases err; simp)
  then show ?thesis
    unfolding fails_def err_def ret_def eof_def notab_def clashes_def .
qed

theorem pl_format_errors_witness:
  "convert_pl_input_to_rxn_df
     (\<lambda>p. Some (pf_row ''ID'' ''a'' @ [NL] @ ''//'' @ [NL] @ pf_row ''EC'' ''1'' @ [NL])) ''0.pf''
   = Inl IndexError"
proof -
  let ?txt = "pf_row ''ID'' ''a'' @ [NL] @ ''//'' @ [NL] @ pf_row ''EC'' ''1'' @ [NL]"
  let ?ls = "[pf_row ''ID'' ''a'', ''//'', pf_row ''EC'' ''1'']"
  let ?bs = "[[pf_row ''ID'' ''a'']]" and ?post = "[pf_row ''EC'' ''1'']"
  have 1: "(\<lambda>p. Some ?txt) ''0.pf'' = Some ?txt" by simp
  have 2: "map rstrip (file_lines ?txt) = ?ls" by (rule example_failures(1))
  have 3: "?ls = pf_lines ?bs @ ?post" by (simp add: pf_lines_def)
  have 4: "\<forall>b\<in>set ?bs. ''//'' \<notin> set b" and 5: "''//'' \<notin> set ?post"
    using pf_row_not_end by (simp_all add: eq_commute [of "''//''"])
  have 6: "\<forall>l\<in>set ?ls. take 1 l \<noteq> [TAB]"
    by (simp add: pf_row_def TAB_def)
  have nc: "\<not> (\<exists>b\<in>set (?bs @ [?post]). clash b)"
    by (simp add: clash_def line_key_pf_row TAB_def)
  have eof: "?ls \<noteq> [] \<and> last ?ls \<noteq> ''//''"
    using pf_row_not_end by simp
  from pl_format_errors [of "\<lambda>p. Some ?txt" "''0.pf''" ?txt ?ls ?bs ?post, OF 1 2 3 4 5 6,
      THEN conjunct2, THEN conjunct1, THEN mp, OF nc] eof
  show ?thesis by blast
qed

text \<open>The claim as stated fails in three ways. A line made of a key and a tab has a tab
  in the file, but none once it is stripped, and raises \<open>IndexError\<close> in a closed block. A
  closed block whose lines all have a tab raises \<open>AttributeError\<close> when a line of key \<open>ec\<close>
  comes before a line of key \<open>EC\<close>. And a line that begins with its only tab raises
  \<open>IndexError\<close> although it has a tab (the scan of \<open>convert_rxn_row_list_format\<close> starts
  at index 1).\<close>

theorem pl_failure_other_causes:
  "file_lines (''ID'' @ [TAB, NL] @ ''//'' @ [NL]) = [''ID'' @ [TAB, NL], ''//'' @ [NL]]
   \<and> convert_pl_input_to_rxn_df (\<lambda>p. Some (''ID'' @ [TAB, NL] @ ''//'' @ [NL])) ''0.pf''
       = Inl IndexError
   \<and> convert_pl_input_to_rxn_df
       (\<lambda>p. Some (pf_row ''ec'' ''x'' @ [NL] @ pf_row ''EC'' ''1'' @ [NL] @ ''//'' @ [NL])) ''0.pf''
       = Inl AttributeError
   \<and> convert_pl_input_to_rxn_df (\<lambda>p. Some (TAB # ''A'' @ [NL] @ ''//'' @ [NL])) ''0.pf''
       = Inl IndexError"
proof -
  have "\<forall>b\<in>set [[''ID'']]. ''//'' \<notin> set b" by simp
  from rxn_df_of_pf_lines [OF this]
  have "rxn_df_of_lines [''ID'', ''//''] = Inl IndexError"
    by (simp add: pf_lines_def convert_rxn_row_list_format_def find_tab.simps TAB_def)
  then have a: "convert_pl_input_to_rxn_df (\<lambda>p. Some (''ID'' @ [TAB, NL] @ ''//'' @ [NL])) ''0.pf''
       = Inl IndexError"
    by (simp only: convert_pl_input_to_rxn_df_def example_failures option.case)
  have "\<forall>b\<in>set [[pf_row ''ec'' ''x'', pf_row ''EC'' ''1'']]. ''//'' \<notin> set b"
    using pf_row_not_end by (simp add: eq_commute [of "''//''"])
  from rxn_df_of_pf_lines [OF this]
  have "rxn_df_of_lines [pf_row ''ec'' ''x'', pf_row ''EC'' ''1'', ''//''] = Inl AttributeError"
    by (simp add: pf_lines_def convert_pf_row rxn_store_def dict_append_def temp_rxn_init_def
        TAB_def)
  then have b: "convert_pl_input_to_rxn_df
       (\<lambda>p. Some (pf_row ''ec'' ''x'' @ [NL] @ pf_row ''EC'' ''1'' @ [NL] @ ''//'' @ [NL])) ''0.pf''
       = Inl AttributeError"
    by (simp only: convert_pl_input_to_rxn_df_def example_failures option.case)
  have "\<forall>b\<in>set [[TAB # ''A'']]. ''//'' \<notin> set b"
    by (simp add: TAB_def)
  from rxn_df_of_pf_lines [OF this]
  have "rxn_df_of_lines [TAB # ''A'', ''//''] = Inl IndexError"
    by (simp add: pf_lines_def convert_rxn_row_list_format_def find_tab.simps TAB_def)
  then have c: "convert_pl_input_to_rxn_df (\<lambda>p. Some (TAB # ''A'' @ [NL] @ ''//'' @ [NL])) ''0.pf''
       = Inl IndexError"
    by (simp only: convert_pl_input_to_rxn_df_def example_failures option.case)
  from a b c example_failures(2) show ?thesis by blast
qed

subsection \<open>The duplicate groups\<close>

text \<open>The two loops over indices prefix every field of every group once.\<close>

lemma fold_index_update:
  "n \<le> length xs \<Longrightarrow>
     fold (\<lambda>i m. m[i := f (m ! i)]) [0..<n] xs = map f (take n xs) @ drop n xs"
proof (induction n)
  case 0
  then show ?case by simp
next
  case (Suc n)
  then have n: "n < length xs" by simp
  let ?m = "map f (take n xs) @ drop n xs"
  from Suc n have "fold (\<lambda>i m. m[i := f (m ! i)]) [0..<Suc n] xs = ?m[n := f (?m ! n)]"
    by simp
  also from n have "?m ! n = xs ! n"
    by (simp add: nth_append)
  also from n have "?m[n := f (xs ! n)] = map f (take n xs) @ f (xs ! n) # drop (Suc n) xs"
    by (simp add: list_update_append Cons_nth_drop_Suc [symmetric])
  also from n have "\<dots> = map f (take (Suc n) xs) @ drop (Suc n) xs"
    by (simp add: take_Suc_conv_app_nth)
  finally show ?case .
qed

lemma prefix_orf_fold:
  assumes "r < length m"
  shows "fold (\<lambda>j m. prefix_orf m r j) [0..<k] m =
    m[r := fold (\<lambda>j row. row[j := ''ID'' @ [TAB] @ row ! j]) [0..<k] (m ! r)]"
proof (induction k)
  case 0
  then show ?case by simp
next
  case (Suc k)
  with assms show ?case by (simp add: prefix_orf_def)
qed

lemma prefix_rxn_eq:
  assumes "r < length m"
  shows "prefix_rxn m r = m[r := map (\<lambda>orf. ''ID'' @ [TAB] @ orf) (m ! r)]"
  unfolding prefix_rxn_def prefix_orf_fold [OF assms]
  using fold_index_update [of "length (m ! r)" "m ! r" "\<lambda>orf. ''ID'' @ [TAB] @ orf"]
  by simp

lemma prefix_all_eq: "prefix_all m = map (map (\<lambda>orf. ''ID'' @ [TAB] @ orf)) m"
proof -
  let ?f = "map (\<lambda>orf. ''ID'' @ [TAB] @ orf)"
  have "fold (\<lambda>r m. prefix_rxn m r) [0..<n] m = fold (\<lambda>r m. m[r := ?f (m ! r)]) [0..<n] m"
    if "n \<le> length m" for n
    using that
  proof (induction n)
    case 0
    then show ?case by simp
  next
    case (Suc n)
    let ?m = "fold (\<lambda>r m. m[r := ?f (m ! r)]) [0..<n] m"
    from Suc have "length ?m = length m"
      by (simp add: fold_index_update)
    with Suc show ?case by (simp add: prefix_rxn_eq)
  qed
  then show ?thesis
    by (simp add: prefix_all_def fold_index_update)
qed

lemma split_tab_nonempty: "split_tab s \<noteq> []"
  by (induction s) (auto split: list.splits)

lemma split_tab_no_tab: "TAB \<notin> set s \<Longrightarrow> split_tab s = [s]"
  by (induction s) auto

lemma convert_duplicate_eq:
  assumes "fs duplicate_orf_map = Some txt"
  shows "convert_duplicate_orf_map_to_list fs duplicate_orf_map =
    Inr (map (\<lambda>line. map (\<lambda>orf. ''ID'' @ [TAB] @ orf) (split_tab (rstrip line)))
          (filter (\<lambda>line. TAB \<in> set line) (file_lines txt)))"
  using assms by (simp add: convert_duplicate_orf_map_to_list_def prefix_all_eq comp_def)

text \<open>
  C7. The loader skips every line without a tab; each line with a tab gives one group, in
  the order of the lines: the fields of the line (split at the tabs, after the trailing
  whitespace is stripped), each prefixed with \<open>ID\<close> and a tab. No group is empty, so each
  has a first, canonical field.
\<close>

theorem duplicate_groups:
  assumes "fs duplicate_orf_map = Some txt"
  shows "convert_duplicate_orf_map_to_list fs duplicate_orf_map =
      Inr (map (\<lambda>line. map (\<lambda>orf. ''ID'' @ [TAB] @ orf) (split_tab (rstrip line)))
            (filter (\<lambda>line. TAB \<in> set line) (file_lines txt)))
    \<and> [] \<notin> set (map (\<lambda>line. map (\<lambda>orf. ''ID'' @ [TAB] @ orf) (split_tab (rstrip line)))
            (filter (\<lambda>line. TAB \<in> set line) (file_lines txt)))"
  using convert_duplicate_eq [of fs duplicate_orf_map "txt", OF assms]
  by (auto simp: split_tab_nonempty)

theorem duplicate_groups_witness:
  "convert_duplicate_orf_map_to_list
     (\<lambda>p. Some (''A'' @ [TAB] @ ''B'' @ [NL] @ ''orfs'' @ [NL] @ ''C'' @ [TAB] @ ''D'' @ [TAB] @ ''E'' @ [NL]))
     ''orf_map.txt''
   = Inr [[''ID'' @ [TAB] @ ''A'', ''ID'' @ [TAB] @ ''B''],
          [''ID'' @ [TAB] @ ''C'', ''ID'' @ [TAB] @ ''D'', ''ID'' @ [TAB] @ ''E'']]"
proof -
  let ?txt = "''A'' @ [TAB] @ ''B'' @ [NL] @ ''orfs'' @ [NL] @ ''C'' @ [TAB] @ ''D'' @ [TAB] @ ''E'' @ [NL]"
  have "(\<lambda>p. Some ?txt) ''orf_map.txt'' = Some ?txt" by simp
  from duplicate_groups [of "\<lambda>p. Some ?txt" "''orf_map.txt''" ?txt, OF this, THEN conjunct1]
  show ?thesis
    by (simp add: file_lines_def rstrip_def isspace_def NL_def TAB_def)
qed

text \<open>
  C10. The filter looks for a tab in the raw line, the fields are taken from the stripped
  line: a line with a tab whose stripped text has none (its tabs are all trailing) is kept,
  and gives a group whose only element is the prefixed stripped line.
\<close>

theorem trailing_tab_line_kept:
  assumes "fs duplicate_orf_map = Some txt"
    and "file_lines txt = before @ line # after"
    and "TAB \<in> set line" and "TAB \<notin> set (rstrip line)"
  shows "\<exists>gs gs'. convert_duplicate_orf_map_to_list fs duplicate_orf_map =
        Inr (gs @ [''ID'' @ [TAB] @ rstrip line] # gs')
      \<and> length gs = length (filter (\<lambda>l. TAB \<in> set l) before)
      \<and> length gs' = length (filter (\<lambda>l. TAB \<in> set l) after)"
proof -
  let ?group = "\<lambda>line. map (\<lambda>orf. ''ID'' @ [TAB] @ orf) (split_tab (rstrip line))"
  let ?gs = "map ?group (filter (\<lambda>l. TAB \<in> set l) before)"
  let ?gs' = "map ?group (filter (\<lambda>l. TAB \<in> set l) after)"
  from assms(4) have "?group line = [''ID'' @ [TAB] @ rstrip line]"
    by (simp add: split_tab_no_tab)
  with assms(2,3) convert_duplicate_eq [of fs duplicate_orf_map "txt", OF assms(1)]
  have "convert_duplicate_orf_map_to_list fs duplicate_orf_map =
        Inr (?gs @ [''ID'' @ [TAB] @ rstrip line] # ?gs')"
    by simp
  moreover have "length ?gs = length (filter (\<lambda>l. TAB \<in> set l) before)"
    and "length ?gs' = length (filter (\<lambda>l. TAB \<in> set l) after)"
    by simp_all
  ultimately show ?thesis by blast
qed

theorem trailing_tab_line_kept_witness:
  "convert_duplicate_orf_map_to_list (\<lambda>p. Some (''ORF1'' @ [TAB, NL])) ''orf_map.txt''
   = Inr [[''ID'' @ [TAB] @ ''ORF1'']]"
proof -
  let ?txt = "''ORF1'' @ [TAB, NL]"
  have 1: "(\<lambda>p. Some ?txt) ''orf_map.txt'' = Some ?txt" by simp
  have 2: "file_lines ?txt = [] @ ?txt # []"
    by (simp add: file_lines_def NL_def TAB_def)
  have 3: "TAB \<in> set ?txt" by simp
  have r: "rstrip ?txt = ''ORF1''"
    by (simp add: rstrip_def isspace_def NL_def TAB_def)
  then have 4: "TAB \<notin> set (rstrip ?txt)" by (simp add: TAB_def)
  from trailing_tab_line_kept [of "\<lambda>p. Some ?txt" "''orf_map.txt''" ?txt, OF 1 2 3 4]
  obtain gs gs'
    where "convert_duplicate_orf_map_to_list (\<lambda>p. Some ?txt) ''orf_map.txt'' =
        Inr (gs @ [''ID'' @ [TAB] @ rstrip ?txt] # gs')"
      and "length gs = 0" and "length gs' = 0"
    by auto
  with r show ?thesis by simp
qed

subsection \<open>The contig--bin table\<close>

text \<open>When \<open>read_csv\<close> raises, whatever it raises, the result is the empty relation.\<close>

lemma contig_mag_recovers:
  assumes "read_csv contig_mag_map = Inl e"
  shows "convert_contig_mag_map_to_df read_csv contig_mag_map =
    Inr \<lparr>columns = [Name ''BIN_ID'', Name ''CONTIG_ID''], rows = []\<rparr>"
  using assms
  by (simp add: convert_contig_mag_map_to_df_def empty_frame_def set_columns_def
      select_columns_def)

text \<open>
  C2. The claim: a malformed file gives the empty relation and never an exception. A file of
  three tab-separated columns is malformed for this loader, yet \<open>read_csv\<close> reads it
  without raising; the assignment of two labels to its three columns then raises
  \<open>ValueError\<close> outside the \<open>try\<close>.
\<close>

theorem contig_mag_three_columns:
  "convert_contig_mag_map_to_df
     (\<lambda>p. Inr \<lparr>columns = [Pos 0, Pos 1, Pos 2],
                rows = [[Some ''contig_1'', Some ''bin_1'', Some ''x'']]\<rparr>)
     ''contig_info.tsv''
   = Inl ValueError"
  by (simp add: convert_contig_mag_map_to_df_def set_columns_def)

end
